theory Spec2Isabelle
  imports
    Complex_Main
    "HOL-Library.Word"
    "HOL-Library.Char_ord"
    "HOL-Library.List_Lexorder"
    "HOL-Library.Multiset"
begin

section \<open>Value model (types.go)\<close>

text \<open>
  \<^verbatim>\<open>DataType\<close> is the tag of a \<^verbatim>\<open>StructuredData\<close> node; the six constants of
  types.go are its constructors.
\<close>

datatype DataType = TypeNull | TypeBool | TypeNumber | TypeString | TypeArray | TypeObject

text \<open>
  A \<^verbatim>\<open>float64\<close> (and a \<^verbatim>\<open>float32\<close>, whose values are a subset) is a NaN, an infinity
  or a finite value. Finite values are modelled by the rational they denote, which covers
  every finite IEEE value and keeps equality exact; the two zeros denote the same rational,
  as Go's \<^verbatim>\<open>==\<close> does not tell them apart.
\<close>

datatype float64 = NaN | PosInf | NegInf | Finite rat

text \<open>Go's \<^verbatim>\<open>==\<close> on floating-point values: a NaN is equal to nothing, itself included.\<close>

definition float_eq :: "float64 \<Rightarrow> float64 \<Rightarrow> bool" where
  "float_eq x y = (x \<noteq> NaN \<and> x = y)"

text \<open>
  The dynamic value held by the field \<^verbatim>\<open>Value any\<close>: \<^verbatim>\<open>nil\<close>, a bool, one of the
  twelve numeric types named by \<^verbatim>\<open>toFloat64\<close> and \<^verbatim>\<open>toInt64\<close> (with \<^verbatim>\<open>int\<close> and
  \<^verbatim>\<open>uint\<close> 64 bits wide), or a string. These are the comparable dynamic types the
  decoder and the engine name; slices, maps and functions, on which Go's interface
  comparison panics, are outside the model.
\<close>

datatype native =
    NNil
  | NBool bool
  | NInt "64 word"
  | NInt8 "8 word"
  | NInt16 "16 word"
  | NInt32 "32 word"
  | NInt64 "64 word"
  | NUint "64 word"
  | NUint8 "8 word"
  | NUint16 "16 word"
  | NUint32 "32 word"
  | NUint64 "64 word"
  | NFloat32 float64
  | NFloat64 float64
  | NString string

text \<open>
  Go's \<^verbatim>\<open>==\<close> on two interface values: equal dynamic types and equal values, where
  floating-point values are compared by \<^const>\<open>float_eq\<close>.
\<close>

definition is_nan_payload :: "native \<Rightarrow> bool" where
  "is_nan_payload v = (v = NFloat32 NaN \<or> v = NFloat64 NaN)"

definition go_eq :: "native \<Rightarrow> native \<Rightarrow> bool" where
  "go_eq x y = (x = y \<and> \<not> is_nan_payload x)"

datatype StringStyle =
  StringStyleUnknown | StringStyleQuoted | StringStyleLiteral | StringStyleFolded | StringStylePlain

record Location =
  Line :: int
  Column :: int

record Metadata =
  Format :: string
  Location :: "Location option"
  Comments :: "string list"
  StringStyle :: StringStyle

text \<open>
  \<^verbatim>\<open>StructuredData\<close>. The map \<^verbatim>\<open>Children\<close> is an association list (a Go map has each
  key once; lookups go through \<^const>\<open>map_of\<close>), the slice \<^verbatim>\<open>Elements\<close> a list. The
  decoder never stores a nil pointer in either, so their entries are values, not options.
\<close>

datatype StructuredData =
  StructuredData
    (Type: DataType)
    (Value: native)
    (Children: "(string \<times> StructuredData) list")
    (Elements: "StructuredData list")
    (Meta: "Metadata option")

datatype DiffStatus = StatusSame | StatusModified | StatusAdded | StatusDeleted

record DiffMeta =
  DiffCount :: int
  Note :: string

text \<open>
  \<^verbatim>\<open>DiffResult\<close>; its fields \<^verbatim>\<open>Children\<close> and \<^verbatim>\<open>Meta\<close> carry the suffix D to keep
  them apart from those of \<^verbatim>\<open>StructuredData\<close>.
\<close>

datatype DiffResult =
  DiffResult
    (Status: DiffStatus)
    (Path: "string list")
    (From: "StructuredData option")
    (To: "StructuredData option")
    (ChildrenD: "DiffResult list")
    (MetaD: "DiffMeta option")

text \<open>
  The engine reads a difference count as \<^verbatim>\<open>cost := 0; if diff.Meta != nil { cost =
  diff.Meta.DiffCount }\<close>.
\<close>

definition diffCount :: "DiffResult \<Rightarrow> int" where
  "diffCount d = (case MetaD d of None \<Rightarrow> 0 | Some m \<Rightarrow> DiffCount m)"

section \<open>Numbers (diff.go: toFloat64, toInt64, equalNumbers)\<close>

text \<open>
  Conversion of an integer to \<^verbatim>\<open>float64\<close> rounds to 53 significant bits, ties to even.
  \<open>excess_bits m\<close> is the number of bits of \<open>m\<close> beyond 53, for \<open>m < 2 ^ 64\<close>.
\<close>

definition excess_bits :: "int \<Rightarrow> nat" where
  "excess_bits m = length (filter (\<lambda>k. 2 ^ (53 + k) \<le> m) [0..<11])"

definition round53 :: "int \<Rightarrow> int" where
  "round53 n =
     (let m = \<bar>n\<bar>; k = excess_bits m; q = m div 2 ^ k; r = m mod 2 ^ k
      in if k = 0 then n
         else sgn n * (if 2 * r > 2 ^ k \<or> (2 * r = 2 ^ k \<and> odd q) then q + 1 else q) * 2 ^ k)"

definition float64_of_int :: "int \<Rightarrow> float64" where
  "float64_of_int n = Finite (of_int (round53 n))"

text \<open>
  Conversion of a \<^verbatim>\<open>float64\<close> to \<^verbatim>\<open>int64\<close> truncates toward zero. Where the value does
  not fit (NaN, infinities, magnitude of \<open>2 ^ 63\<close> or more) Go leaves the result to the
  implementation; the model takes the amd64 result, the least \<^verbatim>\<open>int64\<close>.
\<close>

definition trunc :: "rat \<Rightarrow> int" where
  "trunc r = (if 0 \<le> r then \<lfloor>r\<rfloor> else \<lceil>r\<rceil>)"

definition int64_of_float :: "float64 \<Rightarrow> int" where
  "int64_of_float f =
     (case f of
        Finite r \<Rightarrow> (if - (2 ^ 63) \<le> trunc r \<and> trunc r < 2 ^ 63 then trunc r else - (2 ^ 63))
      | _ \<Rightarrow> - (2 ^ 63))"

fun toFloat64 :: "native \<Rightarrow> float64" where
  "toFloat64 (NInt w) = float64_of_int (sint w)"
| "toFloat64 (NInt8 w) = float64_of_int (sint w)"
| "toFloat64 (NInt16 w) = float64_of_int (sint w)"
| "toFloat64 (NInt32 w) = float64_of_int (sint w)"
| "toFloat64 (NInt64 w) = float64_of_int (sint w)"
| "toFloat64 (NUint w) = float64_of_int (uint w)"
| "toFloat64 (NUint8 w) = float64_of_int (uint w)"
| "toFloat64 (NUint16 w) = float64_of_int (uint w)"
| "toFloat64 (NUint32 w) = float64_of_int (uint w)"
| "toFloat64 (NUint64 w) = float64_of_int (uint w)"
| "toFloat64 (NFloat32 f) = f"
| "toFloat64 (NFloat64 f) = f"
| "toFloat64 _ = Finite 0"

text \<open>
  \<^verbatim>\<open>toInt64\<close> returns the \<^verbatim>\<open>int64\<close> (as the integer it denotes) and the flag. The
  \<^verbatim>\<open>uint\<close> case converts without a range check, so the 64 bits are read as signed; the
  \<^verbatim>\<open>uint64\<close> case checks the range first.
\<close>

fun toInt64 :: "native \<Rightarrow> int \<times> bool" where
  "toInt64 (NInt w) = (sint w, True)"
| "toInt64 (NInt8 w) = (sint w, True)"
| "toInt64 (NInt16 w) = (sint w, True)"
| "toInt64 (NInt32 w) = (sint w, True)"
| "toInt64 (NInt64 w) = (sint w, True)"
| "toInt64 (NUint w) = (sint w, True)"
| "toInt64 (NUint8 w) = (uint w, True)"
| "toInt64 (NUint16 w) = (uint w, True)"
| "toInt64 (NUint32 w) = (uint w, True)"
| "toInt64 (NUint64 w) = (if uint w \<le> 9223372036854775807 then (uint w, True) else (0, False))"
| "toInt64 (NFloat32 f) =
     (if float_eq f (float64_of_int (int64_of_float f)) then (int64_of_float f, True) else (0, False))"
| "toInt64 (NFloat64 f) =
     (if float_eq f (float64_of_int (int64_of_float f)) then (int64_of_float f, True) else (0, False))"
| "toInt64 _ = (0, False)"

definition equalNumbers :: "native \<Rightarrow> native \<Rightarrow> bool" where
  "equalNumbers a b =
     (let aFloat = toFloat64 a; bFloat = toFloat64 b;
          (aInt, aIsInt) = toInt64 a; (bInt, bIsInt) = toInt64 b
      in if aIsInt \<and> bIsInt then aInt = bInt else float_eq aFloat bFloat)"

section \<open>Strings and paths\<close>

abbreviation newline :: char where
  "newline \<equiv> CHR 0x0A"

text \<open>\<^verbatim>\<open>strings.Split(s, "\n")\<close>: the pieces between separators; never empty.\<close>

fun splitLines :: "string \<Rightarrow> string list" where
  "splitLines [] = [[]]"
| "splitLines (c # cs) =
     (if c = newline then [] # splitLines cs
      else (c # hd (splitLines cs)) # tl (splitLines cs))"

text \<open>\<^verbatim>\<open>fmt.Sprintf("%d", i)\<close> for a non-negative index.\<close>

fun decimal :: "nat \<Rightarrow> string" where
  "decimal n =
     (if n < 10 then [''0123456789'' ! n]
      else decimal (n div 10) @ [''0123456789'' ! (n mod 10)])"

declare decimal.simps [simp del]

definition indexSegment :: "nat \<Rightarrow> string" where
  "indexSegment i = ''['' @ decimal i @ '']''"

lemma size_Elements [termination_simp]: "x \<in> set (Elements d) \<Longrightarrow> size x < size d"
  by (cases d) (auto simp: less_Suc_eq_le dest!: size_list_estimation'[where f=size and y="size x"])

lemma size_Children [termination_simp]:
  assumes "(k, x) \<in> set (Children d)"
  shows "size x < size d"
proof (cases d)
  case (StructuredData t v ch el m)
  with assms have "(k, x) \<in> set ch" by simp
  then have "size_prod (\<lambda>x. 0) size (k, x) \<le> size_list (size_prod (\<lambda>x. 0) size) ch"
    by (rule size_list_estimation') simp
  with StructuredData show ?thesis by simp
qed

lemma size_snd_Children [termination_simp]: "p \<in> set (Children d) \<Longrightarrow> size (snd p) < size d"
  by (cases p) (auto dest: size_Children)

fun calculateSize :: "StructuredData option \<Rightarrow> int" where
  "calculateSize None = 0"
| "calculateSize (Some d) =
     (case Type d of
        TypeArray \<Rightarrow> sum_list (map (\<lambda>elem. calculateSize (Some elem)) (Elements d))
      | TypeObject \<Rightarrow> sum_list (map (\<lambda>child. calculateSize (Some (snd child))) (Children d))
      | _ \<Rightarrow> 1)"

section \<open>The diff engine (diff.go)\<close>

datatype ArrayDiffStrategy = ArrayStrategyIndex | ArrayStrategyValue

record DiffOptions =
  IgnoreEmptyFields :: bool
  IgnoreZeroValues :: bool
  IgnoreKeyCase :: bool
  IgnoreValueCase :: bool
  ArrayDiffStrategy :: ArrayDiffStrategy

record DiffEngine =
  options :: DiffOptions

text \<open>The local struct \<^verbatim>\<open>match\<close> of \<^verbatim>\<open>compareArraysByValue\<close>.\<close>

record match =
  indexA :: nat
  indexB :: nat
  diff :: DiffResult
  cost :: int

text \<open>
  The functions of Go's standard library that the engine calls and whose result the
  language leaves open or ties to Unicode tables: \<^verbatim>\<open>sort.Slice\<close> (sorted by the key, the
  order of equal keys unspecified), \<^verbatim>\<open>strings.ToLower\<close> and \<^verbatim>\<open>strings.EqualFold\<close>.
  They are parameters of the model.
\<close>

record stdlib =
  sortSlice :: "(match \<Rightarrow> int) \<Rightarrow> match list \<Rightarrow> match list"
  toLower :: "string \<Rightarrow> string"
  equalFold :: "string \<Rightarrow> string \<Rightarrow> bool"

definition newMeta :: "int \<Rightarrow> DiffMeta option" where
  "newMeta n = Some \<lparr>DiffCount = n, Note = []\<rparr>"

text \<open>Field updates of a \<^verbatim>\<open>DiffResult\<close> under construction.\<close>

definition setModified :: "DiffResult \<Rightarrow> DiffResult" where
  "setModified r = DiffResult StatusModified (Path r) (From r) (To r) (ChildrenD r) (MetaD r)"

definition setPath :: "DiffResult \<Rightarrow> string list \<Rightarrow> DiffResult" where
  "setPath r p = DiffResult (Status r) p (From r) (To r) (ChildrenD r) (MetaD r)"

definition appendChild :: "DiffResult \<Rightarrow> DiffResult \<Rightarrow> DiffResult" where
  "appendChild r c = DiffResult (Status r) (Path r) (From r) (To r) (ChildrenD r @ [c]) (MetaD r)"

text \<open>
  \<^verbatim>\<open>if childDiff.Meta != nil { result.Meta.DiffCount += childDiff.Meta.DiffCount }\<close>;
  the result under construction always has its \<^verbatim>\<open>Meta\<close> set.
\<close>

definition addDiffCount :: "DiffResult \<Rightarrow> DiffResult \<Rightarrow> DiffResult" where
  "addDiffCount r c =
     (case MetaD c of
        None \<Rightarrow> r
      | Some cm \<Rightarrow>
          DiffResult (Status r) (Path r) (From r) (To r) (ChildrenD r)
            (map_option (\<lambda>m. m\<lparr>DiffCount := DiffCount m + DiffCount cm\<rparr>) (MetaD r)))"

text \<open>
  The loop body shared by \<^verbatim>\<open>compareArraysByIndex\<close>, \<^verbatim>\<open>compareObjects\<close> and the matched
  elements of \<^verbatim>\<open>compareArraysByValue\<close>: a changed child marks the result modified and
  adds its count; every child is appended.
\<close>

definition noteChild :: "DiffResult \<Rightarrow> DiffResult \<Rightarrow> DiffResult" where
  "noteChild r c =
     appendChild (if Status c \<noteq> StatusSame then addDiffCount (setModified r) c else r) c"

text \<open>The loop body for the unmatched elements of \<^verbatim>\<open>compareArraysByValue\<close>.\<close>

definition noteUnmatched :: "DiffResult \<Rightarrow> DiffResult \<Rightarrow> DiffResult" where
  "noteUnmatched r c = addDiffCount (setModified (appendChild r c)) c"

text \<open>The type assertion \<^verbatim>\<open>s, ok := v.(string)\<close>.\<close>

definition asString :: "native \<Rightarrow> string option" where
  "asString v = (case v of NString s \<Rightarrow> Some s | _ \<Rightarrow> None)"

definition shouldDoLineDiff :: "StructuredData \<Rightarrow> StructuredData \<Rightarrow> bool" where
  "shouldDoLineDiff a b =
     (if Type a \<noteq> TypeString \<or> Type b \<noteq> TypeString then False
      else case asString (Value a) of
        None \<Rightarrow> False
      | Some aStr \<Rightarrow>
          (case asString (Value b) of
             None \<Rightarrow> False
           | Some bStr \<Rightarrow> newline \<in> set aStr \<or> newline \<in> set bStr))"

definition shouldIgnore :: "DiffEngine \<Rightarrow> StructuredData option \<Rightarrow> bool \<Rightarrow> bool" where
  "shouldIgnore e data exists =
     (if \<not> exists \<and> IgnoreEmptyFields (options e) then True
      else if \<not> IgnoreZeroValues (options e) then False
      else case data of
        None \<Rightarrow> True
      | Some d \<Rightarrow>
          (case Type d of
             TypeNull \<Rightarrow> True
           | TypeBool \<Rightarrow> go_eq (Value d) (NBool False)
           | TypeNumber \<Rightarrow> go_eq (Value d) (NInt 0) \<or> go_eq (Value d) (NFloat64 (Finite 0))
           | TypeString \<Rightarrow> go_eq (Value d) (NString [])
           | TypeArray \<Rightarrow> length (Elements d) = 0
           | TypeObject \<Rightarrow> length (Children d) = 0))"

text \<open>The element at index \<open>i\<close>, or nil past the end (\<^verbatim>\<open>if i < len(a.Elements)\<close>).\<close>

definition elemAt :: "StructuredData list \<Rightarrow> nat \<Rightarrow> StructuredData option" where
  "elemAt xs i = (if i < length xs then Some (xs ! i) else None)"

text \<open>The line of a multiline string as a synthetic string value.\<close>

definition lineValue :: "StructuredData \<Rightarrow> string \<Rightarrow> StructuredData" where
  "lineValue a line = StructuredData TypeString (NString line) [] [] (Meta a)"

definition lineArray :: "StructuredData \<Rightarrow> string list \<Rightarrow> StructuredData" where
  "lineArray a lines = StructuredData TypeArray NNil [] (map (lineValue a) lines) (Meta a)"

text \<open>
  \<^verbatim>\<open>[i]\<close> becomes \<^verbatim>\<open>line i\<close> in the last segment of a line child's path.
\<close>

definition relabelLine :: "DiffResult \<Rightarrow> DiffResult" where
  "relabelLine child =
     (if length (Path child) > 0 then
        (let lastPath = last (Path child)
         in if lastPath \<noteq> [] \<and> hd lastPath = CHR ''['' \<and> last lastPath = CHR '']''
            then setPath child (butlast (Path child) @ [''line '' @ butlast (tl lastPath)])
            else child)
      else child)"

text \<open>The lower-case key map of \<^verbatim>\<open>compareObjectsIgnoreCase\<close>: later keys overwrite.\<close>

definition lowerKeyMap :: "stdlib \<Rightarrow> StructuredData \<Rightarrow> string \<Rightarrow> string option" where
  "lowerKeyMap L a = foldl (\<lambda>m k. m(toLower L k \<mapsto> k)) Map.empty (map fst (Children a))"

fun newlines :: "native \<Rightarrow> nat" where
  "newlines (NString s) = count_list s newline"
| "newlines _ = 0"

fun msz :: "StructuredData \<Rightarrow> nat" where
  "msz d =
     2 + 6 * newlines (Value d) + sum_list (map (\<lambda>p. msz (snd p)) (Children d))
       + sum_list (map msz (Elements d))"

declare msz.simps [simp del]

fun mopt :: "StructuredData option \<Rightarrow> nat" where
  "mopt None = 0"
| "mopt (Some d) = msz d"

definition mlines :: "StructuredData \<Rightarrow> nat" where
  "mlines d = 4 + 2 * newlines (Value d)"

lemma msz_Elements: "x \<in> set (Elements d) \<Longrightarrow> msz x < msz d"
  using member_le_sum_list [of "msz x" "map msz (Elements d)"]
  by (subst (2) msz.simps) auto

lemma msz_Children: "(k, x) \<in> set (Children d) \<Longrightarrow> msz x < msz d"
  using member_le_sum_list [of "msz x" "map (\<lambda>p. msz (snd p)) (Children d)"]
  by (subst (2) msz.simps) force

lemma mopt_elemAt: "mopt (elemAt (Elements d) i) < msz d"
  by (cases "i < length (Elements d)") (auto simp: elemAt_def msz_Elements, subst msz.simps, simp)

lemma mopt_map_of: "mopt (map_of (Children d) k) < msz d"
proof (cases "map_of (Children d) k")
  case None
  then show ?thesis by (subst msz.simps) simp
next
  case (Some x)
  then have "(k, x) \<in> set (Children d)" by (rule map_of_SomeD)
  with Some show ?thesis by (simp add: msz_Children)
qed

lemma mopt_lookup:
  "mopt (case m of None \<Rightarrow> None | Some k \<Rightarrow> map_of (Children d) k) < msz d"
  using mopt_map_of [of d] by (cases m) (simp_all add: msz.simps [of d])

lemma splitLines_not_Nil [simp]: "splitLines s \<noteq> []"
  by (induction s) auto

lemma length_splitLines: "length (splitLines s) = count_list s newline + 1"
  by (induction s) (auto simp: Suc_leI)

lemma splitLines_no_newline: "l \<in> set (splitLines s) \<Longrightarrow> newline \<notin> set l"
proof (induction s arbitrary: l)
  case Nil
  then show ?case by simp
next
  case (Cons c cs)
  have hd_tl: "splitLines cs = hd (splitLines cs) # tl (splitLines cs)" by simp
  show ?case
  proof (cases "c = newline")
    case True
    with Cons show ?thesis by auto
  next
    case False
    with Cons.prems have "l = c # hd (splitLines cs) \<or> l \<in> set (tl (splitLines cs))" by simp
    then show ?thesis
    proof
      assume "l = c # hd (splitLines cs)"
      moreover have "newline \<notin> set (hd (splitLines cs))"
        by (rule Cons.IH) (metis hd_tl list.set_intros(1))
      ultimately show ?thesis using False by auto
    next
      assume "l \<in> set (tl (splitLines cs))"
      then have "l \<in> set (splitLines cs)" by (metis hd_tl list.set_intros(2))
      then show ?thesis by (rule Cons.IH)
    qed
  qed
qed

lemma msz_lineValue: "newline \<notin> set l \<Longrightarrow> msz (lineValue a l) = 2"
  by (subst msz.simps) (simp add: lineValue_def count_list_0_iff)

lemma sum_msz_lines:
  "(\<And>l. l \<in> set ls \<Longrightarrow> newline \<notin> set l) \<Longrightarrow>
   sum_list (map msz (map (lineValue a) ls)) = 2 * length ls"
  by (induction ls) (simp_all add: msz_lineValue)

lemma msz_lineArray: "msz (lineArray a (splitLines s)) = 4 + 2 * count_list s newline"
  using sum_msz_lines [of "splitLines s" a, OF splitLines_no_newline]
  by (subst msz.simps) (simp add: lineArray_def length_splitLines)

lemma mlines_le:
  assumes "shouldDoLineDiff x y"
  shows "mlines x + mlines y \<le> msz x + msz y"
proof -
  from assms obtain s t where v: "Value x = NString s" "Value y = NString t"
    and nl: "newline \<in> set s \<or> newline \<in> set t"
    by (auto simp: shouldDoLineDiff_def asString_def split: if_splits native.splits option.splits)
  from nl have "count_list s newline \<noteq> 0 \<or> count_list t newline \<noteq> 0"
    by (simp add: count_list_0_iff)
  then have "1 \<le> count_list s newline + count_list t newline"
    by arith
  moreover have "2 + 6 * count_list s newline \<le> msz x"
    using v by (subst msz.simps) simp
  moreover have "2 + 6 * count_list t newline \<le> msz y"
    using v by (subst msz.simps) simp
  ultimately show ?thesis using v by (simp add: mlines_def)
qed

function
  compareWithPath ::
    "stdlib \<Rightarrow> DiffEngine \<Rightarrow> StructuredData option \<Rightarrow> StructuredData option \<Rightarrow> string list \<Rightarrow> DiffResult"
  and compareArrays ::
    "stdlib \<Rightarrow> DiffEngine \<Rightarrow> StructuredData \<Rightarrow> StructuredData \<Rightarrow> string list \<Rightarrow> DiffResult"
  and compareArraysByIndex ::
    "stdlib \<Rightarrow> DiffEngine \<Rightarrow> StructuredData \<Rightarrow> StructuredData \<Rightarrow> string list \<Rightarrow> DiffResult"
  and compareArraysByValue ::
    "stdlib \<Rightarrow> DiffEngine \<Rightarrow> StructuredData \<Rightarrow> StructuredData \<Rightarrow> string list \<Rightarrow> DiffResult"
  and compareObjects ::
    "stdlib \<Rightarrow> DiffEngine \<Rightarrow> StructuredData \<Rightarrow> StructuredData \<Rightarrow> string list \<Rightarrow> DiffResult"
  and compareObjectsIgnoreCase ::
    "stdlib \<Rightarrow> DiffEngine \<Rightarrow> StructuredData \<Rightarrow> StructuredData \<Rightarrow> string list \<Rightarrow> DiffResult \<Rightarrow> DiffResult"
  and compareMultilineStrings ::
    "stdlib \<Rightarrow> DiffEngine \<Rightarrow> StructuredData \<Rightarrow> StructuredData \<Rightarrow> string list \<Rightarrow> DiffResult option"
where
  "compareWithPath L e a b path =
     (case a of
        None \<Rightarrow>
          (case b of
             None \<Rightarrow> DiffResult StatusSame path None None [] None
           | Some y \<Rightarrow> DiffResult StatusAdded path None b [] (newMeta (calculateSize b)))
      | Some x \<Rightarrow>
          (case b of
             None \<Rightarrow> DiffResult StatusDeleted path a None [] (newMeta (calculateSize a))
           | Some y \<Rightarrow>
               if Type x \<noteq> Type y then
                 DiffResult StatusModified path a b [] (newMeta (calculateSize a + calculateSize b))
               else
                 (case Type x of
                    TypeNull \<Rightarrow> DiffResult StatusSame path a b [] None
                  | TypeBool \<Rightarrow>
                      if go_eq (Value x) (Value y) then DiffResult StatusSame path a b [] None
                      else DiffResult StatusModified path a b [] (newMeta 1)
                  | TypeString \<Rightarrow>
                      if shouldDoLineDiff x y then the (compareMultilineStrings L e x y path)
                      else
                        (let equal = go_eq (Value x) (Value y);
                             equal =
                               (if \<not> equal \<and> IgnoreValueCase (options e) then
                                  (case asString (Value x) of
                                     None \<Rightarrow> equal
                                   | Some aStr \<Rightarrow>
                                       (case asString (Value y) of
                                          None \<Rightarrow> equal
                                        | Some bStr \<Rightarrow> equalFold L aStr bStr))
                                else equal)
                         in if equal then DiffResult StatusSame path a b [] None
                            else DiffResult StatusModified path a b [] (newMeta 1))
                  | TypeNumber \<Rightarrow>
                      if equalNumbers (Value x) (Value y) then DiffResult StatusSame path a b [] None
                      else DiffResult StatusModified path a b [] (newMeta 1)
                  | TypeArray \<Rightarrow> compareArrays L e x y path
                  | TypeObject \<Rightarrow> compareObjects L e x y path)))"
| "compareArrays L e a b path =
     (if ArrayDiffStrategy (options e) = ArrayStrategyValue then compareArraysByValue L e a b path
      else compareArraysByIndex L e a b path)"
| "compareArraysByIndex L e a b path =
     (let result = DiffResult StatusSame path (Some a) (Some b) [] (newMeta 0);
          maxLen = max (length (Elements a)) (length (Elements b));
          childDiffs =
            map (\<lambda>i. compareWithPath L e (elemAt (Elements a) i) (elemAt (Elements b) i)
                        (path @ [indexSegment i]))
              [0..<maxLen]
      in foldl noteChild result childDiffs)"
| "compareArraysByValue L e a b path =
     (let result = DiffResult StatusSame path (Some a) (Some b) [] (newMeta 0);
          matches =
            concat (map (\<lambda>i. map (\<lambda>j.
                (let childDiff = compareWithPath L e (Some (Elements a ! i)) (Some (Elements b ! j)) []
                 in \<lparr>indexA = i, indexB = j, diff = childDiff, cost = diffCount childDiff\<rparr>))
              [0..<length (Elements b)]) [0..<length (Elements a)]);
          matches = sortSlice L cost matches;
          (usedA, usedB, finalMatches) =
            foldl (\<lambda>(usedA, usedB, finalMatches) m.
                if indexA m \<notin> usedA \<and> indexB m \<notin> usedB
                then (insert (indexA m) usedA, insert (indexB m) usedB, finalMatches @ [m])
                else (usedA, usedB, finalMatches))
              ({}, {}, []) matches;
          deleted =
            map (\<lambda>i. compareWithPath L e (Some (Elements a ! i)) None (path @ [indexSegment i]))
              (filter (\<lambda>i. i \<notin> usedA) [0..<length (Elements a)]);
          result = foldl noteUnmatched result deleted;
          added =
            map (\<lambda>j. compareWithPath L e None (Some (Elements b ! j)) (path @ [indexSegment j]))
              (filter (\<lambda>j. j \<notin> usedB) [0..<length (Elements b)]);
          result = foldl noteUnmatched result added
      in foldl (\<lambda>result m. noteChild result (setPath (diff m) (path @ [indexSegment (indexA m)])))
           result finalMatches)"
| "compareObjects L e a b path =
     (let result = DiffResult StatusSame path (Some a) (Some b) [] (newMeta 0)
      in if IgnoreKeyCase (options e) then compareObjectsIgnoreCase L e a b path result
         else
           (let keys = sort (remdups (map fst (Children a) @ map fst (Children b)));
                childDiffs =
                  concat (map (\<lambda>key.
                      (let childA = map_of (Children a) key; hasA = (childA \<noteq> None);
                           childB = map_of (Children b) key; hasB = (childB \<noteq> None)
                       in if shouldIgnore e childA hasA \<and> shouldIgnore e childB hasB then []
                          else [compareWithPath L e childA childB (path @ [key])]))
                    keys)
            in foldl noteChild result childDiffs))"
| "compareObjectsIgnoreCase L e a b path result =
     (let aKeyMap = lowerKeyMap L a;
          bKeyMap = lowerKeyMap L b;
          lowerKeys =
            sort (remdups (map (toLower L \<circ> fst) (Children a) @ map (toLower L \<circ> fst) (Children b)));
          childDiffs =
            concat (map (\<lambda>lowerKey.
                (let hasA = (aKeyMap lowerKey \<noteq> None);
                     hasB = (bKeyMap lowerKey \<noteq> None);
                     childA = (case aKeyMap lowerKey of
                                 None \<Rightarrow> None | Some originalKeyA \<Rightarrow> map_of (Children a) originalKeyA);
                     displayKey = (case aKeyMap lowerKey of None \<Rightarrow> [] | Some originalKeyA \<Rightarrow> originalKeyA);
                     childB = (case bKeyMap lowerKey of
                                 None \<Rightarrow> None | Some originalKeyB \<Rightarrow> map_of (Children b) originalKeyB);
                     displayKey = (case bKeyMap lowerKey of
                                     None \<Rightarrow> displayKey
                                   | Some originalKeyB \<Rightarrow> if displayKey = [] then originalKeyB else displayKey)
                 in if shouldIgnore e childA hasA \<and> shouldIgnore e childB hasB then []
                    else [compareWithPath L e childA childB (path @ [displayKey])]))
              lowerKeys)
      in foldl noteChild result childDiffs)"
| "compareMultilineStrings L e a b path =
     (case asString (Value a) of
        None \<Rightarrow> None
      | Some aStr \<Rightarrow>
          (case asString (Value b) of
             None \<Rightarrow> None
           | Some bStr \<Rightarrow>
               (let aArray = lineArray a (splitLines aStr);
                    bArray = lineArray b (splitLines bStr);
                    arrayResult =
                      compareArrays L (e\<lparr>options := (options e)\<lparr>ArrayDiffStrategy := ArrayStrategyIndex\<rparr>\<rparr>)
                        aArray bArray path;
                    children =
                      (if Status arrayResult \<noteq> StatusSame \<and> length (ChildrenD arrayResult) > 0
                       then map relabelLine (ChildrenD arrayResult) else [])
                in Some (DiffResult (Status arrayResult) path (Some a) (Some b) children (MetaD arrayResult)))))"
  by pat_completeness auto

termination
proof (relation "measure (\<lambda>x. case x of
     Inl (Inl (L, e, a, b, p)) \<Rightarrow> 8 * (mopt a + mopt b) + 7
   | Inl (Inr (Inl (L, e, a, b, p))) \<Rightarrow> 8 * (msz a + msz b) + 5
   | Inl (Inr (Inr (L, e, a, b, p))) \<Rightarrow> 8 * (msz a + msz b) + 4
   | Inr (Inl (Inl (L, e, a, b, p))) \<Rightarrow> 8 * (msz a + msz b) + 4
   | Inr (Inl (Inr (L, e, a, b, p))) \<Rightarrow> 8 * (msz a + msz b) + 5
   | Inr (Inr (Inl (L, e, a, b, p, r))) \<Rightarrow> 8 * (msz a + msz b) + 4
   | Inr (Inr (Inr (L, e, a, b, p))) \<Rightarrow> 8 * (mlines a + mlines b) + 6)", goal_cases)
  case 1
  show ?case by simp
next
  case (2 L e a b path x y)
  from mlines_le [OF 2(5)] show ?case by (simp add: 2(1,2))
next
  case 3
  show ?case by (simp add: 3(1,2))
next
  case 4
  show ?case by (simp add: 4(1,2))
next
  case 5
  show ?case by simp
next
  case 6
  show ?case by simp
next
  case (7 L e a b path r n i)
  show ?case using mopt_elemAt [of a i] mopt_elemAt [of b i] by simp
next
  case (8 L e a b path r i j)
  from 8(2,3) have "Elements a ! i \<in> set (Elements a)" "Elements b ! j \<in> set (Elements b)"
    by simp_all
  then show ?case using msz_Elements [of "Elements a ! i" a] msz_Elements [of "Elements b ! j" b]
    by simp
next
  case (9 L e a b path x xa xb xaa xab y xac ya xc)
  from 9(7) have "Elements a ! xc \<in> set (Elements a)" by simp
  then show ?case using msz_Elements [of "Elements a ! xc" a] by simp
next
  case (10 L e a b path x xa xb xaa xab y xac ya xad xae xc)
  from 10(9) have "Elements b ! xc \<in> set (Elements b)" by simp
  then show ?case using msz_Elements [of "Elements b ! xc" b] by simp
next
  case 11
  show ?case by simp
next
  case (12 L e a b path r keys key childA hasA childB hasB)
  show ?case using mopt_map_of [of a key] mopt_map_of [of b key] by (simp add: 12(5,7))
next
  case (13 L e a b path result aKeyMap bKeyMap lowerKeys lowerKey hasA hasB childA displayKey childB)
  show ?case using mopt_lookup [where m="aKeyMap lowerKey" and d=a] mopt_lookup [where m="bKeyMap lowerKey" and d=b]
    by (simp add: 13(7,9))
next
  case (14 L e a b path aStr bStr)
  from 14(1,2) have "Value a = NString aStr" "Value b = NString bStr"
    by (auto simp: asString_def split: native.splits)
  then show ?case by (simp add: msz_lineArray mlines_def 14)
qed

declare compareWithPath.simps [simp del] compareArrays.simps [simp del]
  compareArraysByIndex.simps [simp del] compareArraysByValue.simps [simp del]
  compareObjects.simps [simp del] compareObjectsIgnoreCase.simps [simp del]
  compareMultilineStrings.simps [simp del] calculateSize.simps [simp del]


text \<open>\<^verbatim>\<open>func (e *DiffEngine) Compare(a, b)\<close>.\<close>

definition DiffEngine_Compare ::
  "stdlib \<Rightarrow> DiffEngine \<Rightarrow> StructuredData option \<Rightarrow> StructuredData option \<Rightarrow> DiffResult" where
  "DiffEngine_Compare L e a b = compareWithPath L e a b []"

section \<open>Concrete inputs\<close>

text \<open>
  A library for evaluating examples: the stable sort (what \<^verbatim>\<open>sort.Slice\<close> does on
  slices of at most twelve entries, which it sorts by insertion), and case mapping of the
  ASCII letters. It stands for the Go library on such inputs only; the examples evaluated
  with it sort at most nine candidate pairs, and their keys and strings are ASCII.
\<close>

definition lowerChar :: "char \<Rightarrow> char" where
  "lowerChar c = (if CHR ''A'' \<le> c \<and> c \<le> CHR ''Z'' then char_of (of_char c + (32::nat)) else c)"

definition asciiLib :: stdlib where
  "asciiLib =
     \<lparr>sortSlice = sort_key, toLower = map lowerChar,
      equalFold = (\<lambda>s t. map lowerChar s = map lowerChar t)\<rparr>"

text \<open>\<^verbatim>\<open>DiffOptions{}\<close>, the zero value, and an engine over it.\<close>

definition defaultOptions :: DiffOptions where
  "defaultOptions =
     \<lparr>IgnoreEmptyFields = False, IgnoreZeroValues = False, IgnoreKeyCase = False,
      IgnoreValueCase = False, ArrayDiffStrategy = ArrayStrategyIndex\<rparr>"

definition defaultEngine :: DiffEngine where
  "defaultEngine = \<lparr>options = defaultOptions\<rparr>"


definition boolean :: "bool \<Rightarrow> StructuredData" where
  "boolean v = StructuredData TypeBool (NBool v) [] [] None"

definition number :: "native \<Rightarrow> StructuredData" where
  "number v = StructuredData TypeNumber v [] [] None"

definition str :: "string \<Rightarrow> StructuredData" where
  "str s = StructuredData TypeString (NString s) [] [] None"

definition array :: "StructuredData list \<Rightarrow> StructuredData" where
  "array xs = StructuredData TypeArray NNil [] xs None"

definition object :: "(string \<times> StructuredData) list \<Rightarrow> StructuredData" where
  "object kvs = StructuredData TypeObject NNil kvs [] None"

section \<open>Numeric equality\<close>

subsection \<open>The numeric rule as the specification words it\<close>

text \<open>
  A payload is integral when it is of an integer type, or a float holding an integer
  value; \<open>spec_integral\<close> gives the integer it denotes.
\<close>

fun spec_integral :: "native \<Rightarrow> int option" where
  "spec_integral (NInt w) = Some (sint w)"
| "spec_integral (NInt8 w) = Some (sint w)"
| "spec_integral (NInt16 w) = Some (sint w)"
| "spec_integral (NInt32 w) = Some (sint w)"
| "spec_integral (NInt64 w) = Some (sint w)"
| "spec_integral (NUint w) = Some (uint w)"
| "spec_integral (NUint8 w) = Some (uint w)"
| "spec_integral (NUint16 w) = Some (uint w)"
| "spec_integral (NUint32 w) = Some (uint w)"
| "spec_integral (NUint64 w) = Some (uint w)"
| "spec_integral (NFloat32 (Finite r)) = (if of_int \<lfloor>r\<rfloor> = r then Some \<lfloor>r\<rfloor> else None)"
| "spec_integral (NFloat64 (Finite r)) = (if of_int \<lfloor>r\<rfloor> = r then Some \<lfloor>r\<rfloor> else None)"
| "spec_integral _ = None"

text \<open>
  Exact integer equality when both sides are integral, floating-point equality of the
  two values otherwise.
\<close>

definition spec_equalNumbers :: "native \<Rightarrow> native \<Rightarrow> bool" where
  "spec_equalNumbers a b =
     (case spec_integral a of
        Some i \<Rightarrow>
          (case spec_integral b of
             Some j \<Rightarrow> i = j
           | None \<Rightarrow> float_eq (toFloat64 a) (toFloat64 b))
      | None \<Rightarrow> float_eq (toFloat64 a) (toFloat64 b))"

text \<open>
  The numeric payloads on which \<^verbatim>\<open>toInt64\<close> is exact: integers of the \<^verbatim>\<open>int64\<close> range,
  and floats that are not integers, or are integers of that range that \<^verbatim>\<open>float64\<close>
  represents.
\<close>

definition float_within_int64 :: "float64 \<Rightarrow> bool" where
  "float_within_int64 f =
     (case f of
        Finite r \<Rightarrow>
          of_int \<lfloor>r\<rfloor> = r \<longrightarrow> - (2 ^ 63) \<le> \<lfloor>r\<rfloor> \<and> \<lfloor>r\<rfloor> < 2 ^ 63 \<and> round53 \<lfloor>r\<rfloor> = \<lfloor>r\<rfloor>
      | _ \<Rightarrow> True)"

fun within_int64 :: "native \<Rightarrow> bool" where
  "within_int64 (NInt w) = True"
| "within_int64 (NInt8 w) = True"
| "within_int64 (NInt16 w) = True"
| "within_int64 (NInt32 w) = True"
| "within_int64 (NInt64 w) = True"
| "within_int64 (NUint w) = (uint w \<le> 9223372036854775807)"
| "within_int64 (NUint8 w) = True"
| "within_int64 (NUint16 w) = True"
| "within_int64 (NUint32 w) = True"
| "within_int64 (NUint64 w) = (uint w \<le> 9223372036854775807)"
| "within_int64 (NFloat32 f) = float_within_int64 f"
| "within_int64 (NFloat64 f) = float_within_int64 f"
| "within_int64 _ = False"

lemma sint_eq_uint_small:
  fixes w :: "64 word"
  assumes "uint w \<le> 9223372036854775807"
  shows "sint w = uint w"
proof -
  have "signed_take_bit 63 (uint w) = uint w"
  proof (rule signed_take_bit_int_eq_self)
    have "- (2 ^ 63) \<le> (0::int)" "0 \<le> uint w" by simp_all
    then show "- (2 ^ 63) \<le> uint w" by (rule order_trans)
    show "uint w < 2 ^ 63" using assms by simp
  qed
  then show ?thesis by (simp add: sint_uint)
qed

lemma trunc_of_int [simp]: "trunc (of_int n) = n"
  by (simp add: trunc_def)

lemma toInt64_float:
  assumes "float_within_int64 f"
  shows "(if float_eq f (float64_of_int (int64_of_float f)) then (int64_of_float f, True) else (0, False))
         = (case f of Finite r \<Rightarrow> (if of_int \<lfloor>r\<rfloor> = r then (\<lfloor>r\<rfloor>, True) else (0, False)) | _ \<Rightarrow> (0, False))"
proof (cases f)
  case (Finite r)
  show ?thesis
  proof (cases "of_int \<lfloor>r\<rfloor> = r")
    case True
    then obtain n where r: "r = of_int n" by metis
    with assms Finite have n: "- (2 ^ 63) \<le> n" "n < 2 ^ 63" "round53 n = n"
      by (simp_all add: float_within_int64_def)
    then show ?thesis using Finite r
      by (simp add: int64_of_float_def float64_of_int_def float_eq_def)
  next
    case False
    have "r \<noteq> of_int k" for k :: int
      using False by (metis floor_of_int)
    then show ?thesis using Finite False
      by (simp add: float64_of_int_def float_eq_def)
  qed
qed (simp_all add: float_eq_def float64_of_int_def)

lemma float_case_spec:
  "(case f of Finite r \<Rightarrow> (if of_int \<lfloor>r\<rfloor> = r then (\<lfloor>r\<rfloor>, True) else (0, False)) | _ \<Rightarrow> (0, False))
   = (case (case f of Finite r \<Rightarrow> (if of_int \<lfloor>r\<rfloor> = r then Some \<lfloor>r\<rfloor> else None) | _ \<Rightarrow> None) of
        Some i \<Rightarrow> (i, True) | None \<Rightarrow> (0, False))"
  by (cases f) (simp_all del: of_int_floor_cancel)

lemma spec_integral_float:
  "spec_integral (NFloat32 f) = (case f of Finite r \<Rightarrow> (if of_int \<lfloor>r\<rfloor> = r then Some \<lfloor>r\<rfloor> else None) | _ \<Rightarrow> None)"
  "spec_integral (NFloat64 f) = (case f of Finite r \<Rightarrow> (if of_int \<lfloor>r\<rfloor> = r then Some \<lfloor>r\<rfloor> else None) | _ \<Rightarrow> None)"
  by (cases f; simp del: of_int_floor_cancel)+

lemma toInt64_spec:
  assumes "within_int64 a"
  shows "toInt64 a = (case spec_integral a of Some i \<Rightarrow> (i, True) | None \<Rightarrow> (0, False))"
proof (cases a)
  case (NFloat32 f)
  with assms have "float_within_int64 f" by simp
  then show ?thesis unfolding NFloat32 spec_integral_float toInt64.simps
    by (simp only: toInt64_float float_case_spec)
next
  case (NFloat64 f)
  with assms have "float_within_int64 f" by simp
  then show ?thesis unfolding NFloat64 spec_integral_float toInt64.simps
    by (simp only: toInt64_float float_case_spec)
qed (use assms in \<open>simp_all add: sint_eq_uint_small\<close>)

lemma equalNumbers_spec:
  assumes "within_int64 a" "within_int64 b"
  shows "equalNumbers a b = spec_equalNumbers a b"
  by (simp add: equalNumbers_def spec_equalNumbers_def toInt64_spec [OF assms(1)]
      toInt64_spec [OF assms(2)] split: option.splits)

lemma compare_numbers:
  assumes "Type x = TypeNumber" "Type y = TypeNumber"
  shows "Status (DiffEngine_Compare L e (Some x) (Some y)) = StatusSame
         \<longleftrightarrow> equalNumbers (Value x) (Value y)"
  using assms by (simp add: DiffEngine_Compare_def compareWithPath.simps)

lemma equalNumbers_42: "equalNumbers (NInt 42) (NFloat64 (Finite 42))"
  by code_simp

text \<open>
  C3, as stated, fails. Two \<^verbatim>\<open>uint64\<close> payloads above the \<^verbatim>\<open>int64\<close> range are
  integer payloads and differ as integers, yet \<^verbatim>\<open>toInt64\<close> refuses both, both convert
  to the \<^verbatim>\<open>float64\<close> \<open>2 ^ 63\<close>, and the comparison reports them the same.
\<close>

theorem C3_counterexample:
  "Status (DiffEngine_Compare asciiLib defaultEngine
      (Some (number (NUint64 9223372036854775809)))
      (Some (number (NUint64 9223372036854775810)))) = StatusSame
   \<and> \<not> spec_equalNumbers (NUint64 9223372036854775809) (NUint64 9223372036854775810)"
proof -
  have "equalNumbers (NUint64 9223372036854775809) (NUint64 9223372036854775810)"
    by code_simp
  moreover have "\<not> spec_equalNumbers (NUint64 9223372036854775809) (NUint64 9223372036854775810)"
    by code_simp
  ultimately show ?thesis
    by (simp add: compare_numbers number_def)
qed

text \<open>
  C3, amended: for two Number values whose payloads are integers of the \<^verbatim>\<open>int64\<close> range
  or floats that are not integers of magnitude \<open>2 ^ 63\<close> or more, the comparison reports
  Same exactly when the payloads are equal under the rule of the specification: exact
  integer equality when both are integral, floating-point equality otherwise. In
  particular the integer 42 and the float 42.0 compare Same.
\<close>

theorem C3_number_rule:
  assumes "Type x = TypeNumber" and "Type y = TypeNumber"
    and "within_int64 (Value x)" and "within_int64 (Value y)"
  shows "(Status (DiffEngine_Compare L e (Some x) (Some y)) = StatusSame
            \<longleftrightarrow> spec_equalNumbers (Value x) (Value y))
         \<and> Status (DiffEngine_Compare L e (Some (number (NInt 42)))
              (Some (number (NFloat64 (Finite 42))))) = StatusSame"
  using assms
  by (simp add: compare_numbers equalNumbers_spec number_def equalNumbers_42)

theorem C3_number_rule_witness:
  "Type (number (NInt 42)) = TypeNumber \<and> Type (number (NFloat64 (Finite 42))) = TypeNumber
   \<and> within_int64 (Value (number (NInt 42))) \<and> within_int64 (Value (number (NFloat64 (Finite 42))))
   \<and> (Status (DiffEngine_Compare asciiLib defaultEngine (Some (number (NInt 42)))
          (Some (number (NFloat64 (Finite 42))))) = StatusSame
        \<longleftrightarrow> spec_equalNumbers (Value (number (NInt 42))) (Value (number (NFloat64 (Finite 42)))))"
proof -
  have t: "Type (number (NInt 42)) = TypeNumber" "Type (number (NFloat64 (Finite 42))) = TypeNumber"
    by (simp_all add: number_def)
  have w: "within_int64 (Value (number (NInt 42)))"
    "within_int64 (Value (number (NFloat64 (Finite 42))))"
    by code_simp+
  from C3_number_rule [OF t w, of asciiLib defaultEngine] t w show ?thesis
    by blast
qed

section \<open>Scalars with a malformed payload\<close>

lemma compare_strings_plain:
  assumes "Type x = TypeString" "Type y = TypeString" "\<not> shouldDoLineDiff x y"
    and "asString (Value x) = None \<or> asString (Value y) = None \<or> \<not> IgnoreValueCase (options e)"
  shows "compareWithPath L e (Some x) (Some y) path =
           (if go_eq (Value x) (Value y) then DiffResult StatusSame path (Some x) (Some y) [] None
            else DiffResult StatusModified path (Some x) (Some y) [] (newMeta 1))"
  using assms by (auto simp: compareWithPath.simps split: option.splits)

lemma shouldDoLineDiff_malformed:
  "asString (Value x) = None \<or> asString (Value y) = None \<Longrightarrow> \<not> shouldDoLineDiff x y"
  by (auto simp: shouldDoLineDiff_def split: option.splits)

lemma compareMultilineStrings_not_nil:
  "shouldDoLineDiff x y \<Longrightarrow> compareMultilineStrings L e x y path \<noteq> None"
  by (auto simp: shouldDoLineDiff_def compareMultilineStrings.simps Let_def split: if_splits option.splits)

text \<open>
  C10, as stated, fails: two values that claim the type String and both hold the integer
  5 are compared by the interface comparison \<^verbatim>\<open>a.Value == b.Value\<close> and come out Same,
  not Modified.
\<close>

theorem C10_counterexample:
  "asString (NInt 5) = None
   \<and> Status (DiffEngine_Compare asciiLib defaultEngine
        (Some (StructuredData TypeString (NInt 5) [] [] None))
        (Some (StructuredData TypeString (NInt 5) [] [] None))) = StatusSame"
  by code_simp

text \<open>
  C10, amended: when two values both claim the type String and at least one payload is
  not a string (of the payload types of the model, on all of which the interface
  comparison is defined), the line splitter is not entered, so its nil result is never
  returned, and the comparison returns a childless result at the given path whose status
  is Same when the two payloads are equal as interface values (same dynamic type, same
  value, not a NaN) and Modified with a difference count of 1 otherwise.
\<close>

theorem C10_malformed_string:
  assumes "Type x = TypeString" and "Type y = TypeString"
    and "asString (Value x) = None \<or> asString (Value y) = None"
  shows "\<not> shouldDoLineDiff x y
         \<and> DiffEngine_Compare L e (Some x) (Some y) =
             (if go_eq (Value x) (Value y) then DiffResult StatusSame [] (Some x) (Some y) [] None
              else DiffResult StatusModified [] (Some x) (Some y) [] (newMeta 1))"
proof -
  from assms(3) have n: "\<not> shouldDoLineDiff x y"
    by (rule shouldDoLineDiff_malformed)
  from assms(3) have "asString (Value x) = None \<or> asString (Value y) = None
      \<or> \<not> IgnoreValueCase (options e)"
    by blast
  from compare_strings_plain [OF assms(1,2) n this] n show ?thesis
    by (simp add: DiffEngine_Compare_def)
qed

theorem C10_malformed_string_witness:
  "Type (StructuredData TypeString (NInt 5) [] [] None) = TypeString
   \<and> Type (str ''5'') = TypeString
   \<and> (asString (Value (StructuredData TypeString (NInt 5) [] [] None)) = None
        \<or> asString (Value (str ''5'')) = None)
   \<and> DiffEngine_Compare asciiLib defaultEngine
        (Some (StructuredData TypeString (NInt 5) [] [] None)) (Some (str ''5'')) =
       DiffResult StatusModified [] (Some (StructuredData TypeString (NInt 5) [] [] None))
         (Some (str ''5'')) [] (newMeta 1)"
proof -
  have h: "Type (StructuredData TypeString (NInt 5) [] [] None) = TypeString"
    "Type (str ''5'') = TypeString"
    "asString (Value (StructuredData TypeString (NInt 5) [] [] None)) = None
       \<or> asString (Value (str ''5'')) = None"
    by (simp_all add: str_def asString_def)
  have "\<not> go_eq (Value (StructuredData TypeString (NInt 5) [] [] None)) (Value (str ''5''))"
    by (simp add: go_eq_def str_def)
  with C10_malformed_string [OF h, of asciiLib defaultEngine] h show ?thesis
    by simp
qed

section \<open>Results under construction\<close>

text \<open>A result whose \<^verbatim>\<open>Meta\<close> is set.\<close>

definition hasMeta :: "DiffResult \<Rightarrow> bool" where
  "hasMeta r = (MetaD r \<noteq> None)"

lemma sel_setModified [simp]:
  "Status (setModified r) = StatusModified" "Path (setModified r) = Path r"
  "From (setModified r) = From r" "To (setModified r) = To r"
  "ChildrenD (setModified r) = ChildrenD r" "MetaD (setModified r) = MetaD r"
  by (simp_all add: setModified_def)

lemma sel_setPath [simp]:
  "Status (setPath r p) = Status r" "Path (setPath r p) = p"
  "From (setPath r p) = From r" "To (setPath r p) = To r"
  "ChildrenD (setPath r p) = ChildrenD r" "MetaD (setPath r p) = MetaD r"
  by (simp_all add: setPath_def)

lemma sel_appendChild [simp]:
  "Status (appendChild r c) = Status r" "Path (appendChild r c) = Path r"
  "From (appendChild r c) = From r" "To (appendChild r c) = To r"
  "ChildrenD (appendChild r c) = ChildrenD r @ [c]" "MetaD (appendChild r c) = MetaD r"
  by (simp_all add: appendChild_def)

lemma sel_addDiffCount [simp]:
  "Status (addDiffCount r c) = Status r" "Path (addDiffCount r c) = Path r"
  "From (addDiffCount r c) = From r" "To (addDiffCount r c) = To r"
  "ChildrenD (addDiffCount r c) = ChildrenD r"
  by (simp_all add: addDiffCount_def split: option.splits)

lemma diffCount_setPath [simp]: "diffCount (setPath r p) = diffCount r"
  by (simp add: diffCount_def)

lemma MetaD_addDiffCount:
  "hasMeta r \<Longrightarrow> hasMeta (addDiffCount r c)"
  by (auto simp: addDiffCount_def hasMeta_def split: option.splits)

lemma hasMeta_setModified [simp]: "hasMeta (setModified r) = hasMeta r"
  by (simp add: hasMeta_def)

lemma hasMeta_appendChild [simp]: "hasMeta (appendChild r c) = hasMeta r"
  by (simp add: hasMeta_def)

lemma diffCount_setModified [simp]: "diffCount (setModified r) = diffCount r"
  by (simp add: diffCount_def)

lemma diffCount_appendChild [simp]: "diffCount (appendChild r c) = diffCount r"
  by (simp add: diffCount_def)

lemma diffCount_addDiffCount:
  "hasMeta r \<Longrightarrow> diffCount (addDiffCount r c) = diffCount r + diffCount c"
  by (auto simp: addDiffCount_def diffCount_def hasMeta_def split: option.splits)

lemma sel_noteChild [simp]:
  "Status (noteChild r c) = (if Status c \<noteq> StatusSame then StatusModified else Status r)"
  "Path (noteChild r c) = Path r" "From (noteChild r c) = From r" "To (noteChild r c) = To r"
  "ChildrenD (noteChild r c) = ChildrenD r @ [c]"
  by (simp_all add: noteChild_def)

lemma MetaD_noteChild: "hasMeta r \<Longrightarrow> hasMeta (noteChild r c)"
  by (simp add: noteChild_def MetaD_addDiffCount)

lemma diffCount_noteChild:
  "hasMeta r \<Longrightarrow>
   diffCount (noteChild r c) = diffCount r + (if Status c \<noteq> StatusSame then diffCount c else 0)"
  by (simp add: noteChild_def diffCount_addDiffCount)

lemma sel_noteUnmatched [simp]:
  "Status (noteUnmatched r c) = StatusModified"
  "Path (noteUnmatched r c) = Path r" "From (noteUnmatched r c) = From r"
  "To (noteUnmatched r c) = To r" "ChildrenD (noteUnmatched r c) = ChildrenD r @ [c]"
  by (simp_all add: noteUnmatched_def)

lemma MetaD_noteUnmatched: "hasMeta r \<Longrightarrow> hasMeta (noteUnmatched r c)"
  by (simp add: noteUnmatched_def MetaD_addDiffCount)

lemma diffCount_noteUnmatched:
  "hasMeta r \<Longrightarrow> diffCount (noteUnmatched r c) = diffCount r + diffCount c"
  by (simp add: noteUnmatched_def diffCount_addDiffCount)

text \<open>The accumulating loops, as folds.\<close>

lemma foldl_noteChild_sel [simp]:
  "Path (foldl noteChild r cs) = Path r"
  "From (foldl noteChild r cs) = From r"
  "To (foldl noteChild r cs) = To r"
  "ChildrenD (foldl noteChild r cs) = ChildrenD r @ cs"
  by (induction cs arbitrary: r) simp_all

lemma foldl_noteChild_Status:
  "Status (foldl noteChild r cs) =
     (if \<exists>c \<in> set cs. Status c \<noteq> StatusSame then StatusModified else Status r)"
  by (induction cs arbitrary: r) auto

lemma foldl_noteChild_MetaD: "hasMeta r \<Longrightarrow> hasMeta (foldl noteChild r cs)"
  by (induction cs arbitrary: r) (simp_all add: MetaD_noteChild)

lemma foldl_noteChild_diffCount:
  "hasMeta r \<Longrightarrow>
   diffCount (foldl noteChild r cs) =
     diffCount r + sum_list (map diffCount (filter (\<lambda>c. Status c \<noteq> StatusSame) cs))"
  by (induction cs arbitrary: r) (simp_all add: MetaD_noteChild diffCount_noteChild)

lemma foldl_noteUnmatched_sel [simp]:
  "Path (foldl noteUnmatched r cs) = Path r"
  "From (foldl noteUnmatched r cs) = From r"
  "To (foldl noteUnmatched r cs) = To r"
  "ChildrenD (foldl noteUnmatched r cs) = ChildrenD r @ cs"
  by (induction cs arbitrary: r) simp_all

lemma foldl_noteUnmatched_Status:
  "Status (foldl noteUnmatched r cs) = (if cs = [] then Status r else StatusModified)"
  by (induction cs arbitrary: r) auto

lemma foldl_noteUnmatched_MetaD:
  "hasMeta r \<Longrightarrow> hasMeta (foldl noteUnmatched r cs)"
  by (induction cs arbitrary: r) (simp_all add: MetaD_noteUnmatched)

lemma foldl_noteUnmatched_diffCount:
  "hasMeta r \<Longrightarrow>
   diffCount (foldl noteUnmatched r cs) = diffCount r + sum_list (map diffCount cs)"
  by (induction cs arbitrary: r) (simp_all add: MetaD_noteUnmatched diffCount_noteUnmatched)

lemma diffCount_newMeta [simp]: "diffCount (DiffResult s p f t cs (newMeta n)) = n"
  by (simp add: diffCount_def newMeta_def)

lemma diffCount_None [simp]: "diffCount (DiffResult s p f t cs None) = 0"
  by (simp add: diffCount_def)

lemma hasMeta_newMeta [simp]: "hasMeta (DiffResult s p f t cs (newMeta n))"
  by (simp add: newMeta_def hasMeta_def)

section \<open>The loops of the engine, named\<close>

text \<open>
  The children computed by the loop of \<^verbatim>\<open>compareArraysByIndex\<close>, the matches and the
  greedy selection of \<^verbatim>\<open>compareArraysByValue\<close> and the children of the two object
  comparisons, as functions of their own, with the equations that tie them to the
  engine.
\<close>

definition emptyResult :: "StructuredData \<Rightarrow> StructuredData \<Rightarrow> string list \<Rightarrow> DiffResult" where
  "emptyResult a b path = DiffResult StatusSame path (Some a) (Some b) [] (newMeta 0)"

definition indexChildren ::
  "stdlib \<Rightarrow> DiffEngine \<Rightarrow> StructuredData \<Rightarrow> StructuredData \<Rightarrow> string list \<Rightarrow> DiffResult list" where
  "indexChildren L e a b path =
     map (\<lambda>i. compareWithPath L e (elemAt (Elements a) i) (elemAt (Elements b) i)
                 (path @ [indexSegment i]))
       [0..<max (length (Elements a)) (length (Elements b))]"

definition pairMatch :: "stdlib \<Rightarrow> DiffEngine \<Rightarrow> StructuredData \<Rightarrow> StructuredData \<Rightarrow> nat \<Rightarrow> nat \<Rightarrow> match" where
  "pairMatch L e a b i j =
     \<lparr>indexA = i, indexB = j,
      diff = compareWithPath L e (Some (Elements a ! i)) (Some (Elements b ! j)) [],
      cost = diffCount (compareWithPath L e (Some (Elements a ! i)) (Some (Elements b ! j)) [])\<rparr>"

definition pairMatches :: "stdlib \<Rightarrow> DiffEngine \<Rightarrow> StructuredData \<Rightarrow> StructuredData \<Rightarrow> match list" where
  "pairMatches L e a b =
     concat (map (\<lambda>i. map (pairMatch L e a b i) [0..<length (Elements b)])
       [0..<length (Elements a)])"

definition greedyStep :: "nat set \<times> nat set \<times> match list \<Rightarrow> match \<Rightarrow> nat set \<times> nat set \<times> match list" where
  "greedyStep s m =
     (case s of (usedA, usedB, finalMatches) \<Rightarrow>
        if indexA m \<notin> usedA \<and> indexB m \<notin> usedB
        then (insert (indexA m) usedA, insert (indexB m) usedB, finalMatches @ [m])
        else (usedA, usedB, finalMatches))"

definition greedy :: "match list \<Rightarrow> nat set \<times> nat set \<times> match list" where
  "greedy ms = foldl greedyStep ({}, {}, []) ms"

definition deletedChildren ::
  "stdlib \<Rightarrow> DiffEngine \<Rightarrow> StructuredData \<Rightarrow> string list \<Rightarrow> nat set \<Rightarrow> DiffResult list" where
  "deletedChildren L e a path usedA =
     map (\<lambda>i. compareWithPath L e (Some (Elements a ! i)) None (path @ [indexSegment i]))
       (filter (\<lambda>i. i \<notin> usedA) [0..<length (Elements a)])"

definition addedChildren ::
  "stdlib \<Rightarrow> DiffEngine \<Rightarrow> StructuredData \<Rightarrow> string list \<Rightarrow> nat set \<Rightarrow> DiffResult list" where
  "addedChildren L e b path usedB =
     map (\<lambda>j. compareWithPath L e None (Some (Elements b ! j)) (path @ [indexSegment j]))
       (filter (\<lambda>j. j \<notin> usedB) [0..<length (Elements b)])"

definition matchedChildren :: "string list \<Rightarrow> match list \<Rightarrow> DiffResult list" where
  "matchedChildren path ms = map (\<lambda>m. setPath (diff m) (path @ [indexSegment (indexA m)])) ms"

definition objectKeys :: "StructuredData \<Rightarrow> StructuredData \<Rightarrow> string list" where
  "objectKeys a b = sort (remdups (map fst (Children a) @ map fst (Children b)))"

definition keySkipped :: "DiffEngine \<Rightarrow> StructuredData \<Rightarrow> StructuredData \<Rightarrow> string \<Rightarrow> bool" where
  "keySkipped e a b key =
     (shouldIgnore e (map_of (Children a) key) (map_of (Children a) key \<noteq> None)
      \<and> shouldIgnore e (map_of (Children b) key) (map_of (Children b) key \<noteq> None))"

definition keyChildren ::
  "stdlib \<Rightarrow> DiffEngine \<Rightarrow> StructuredData \<Rightarrow> StructuredData \<Rightarrow> string list \<Rightarrow> DiffResult list" where
  "keyChildren L e a b path =
     map (\<lambda>key. compareWithPath L e (map_of (Children a) key) (map_of (Children b) key) (path @ [key]))
       (filter (\<lambda>key. \<not> keySkipped e a b key) (objectKeys a b))"

lemma compareArraysByIndex_unfold:
  "compareArraysByIndex L e a b path = foldl noteChild (emptyResult a b path) (indexChildren L e a b path)"
  by (simp add: compareArraysByIndex.simps emptyResult_def indexChildren_def Let_def)

lemma greedy_unfold:
  "foldl (\<lambda>(usedA, usedB, finalMatches) m.
       if indexA m \<notin> usedA \<and> indexB m \<notin> usedB
       then (insert (indexA m) usedA, insert (indexB m) usedB, finalMatches @ [m])
       else (usedA, usedB, finalMatches)) ({}, {}, []) ms = greedy ms"
proof -
  have "(\<lambda>(usedA, usedB, finalMatches) m.
       if indexA m \<notin> usedA \<and> indexB m \<notin> usedB
       then (insert (indexA m) usedA, insert (indexB m) usedB, finalMatches @ [m])
       else (usedA, usedB, finalMatches)) = greedyStep"
    by (auto simp: greedyStep_def fun_eq_iff)
  then show ?thesis by (simp add: greedy_def)
qed

lemma pairMatches_unfold:
  "concat (map (\<lambda>i. map (\<lambda>j.
       \<lparr>indexA = i, indexB = j,
        diff = compareWithPath L e (Some (Elements a ! i)) (Some (Elements b ! j)) [],
        cost = diffCount (compareWithPath L e (Some (Elements a ! i)) (Some (Elements b ! j)) [])\<rparr>)
     [0..<length (Elements b)]) [0..<length (Elements a)]) = pairMatches L e a b"
  unfolding pairMatches_def pairMatch_def ..

lemma compareArraysByValue_unfold:
  "compareArraysByValue L e a b path =
     (case greedy (sortSlice L cost (pairMatches L e a b)) of
        (usedA, usedB, finalMatches) \<Rightarrow>
          foldl noteChild
            (foldl noteUnmatched
               (foldl noteUnmatched (emptyResult a b path) (deletedChildren L e a path usedA))
               (addedChildren L e b path usedB))
            (matchedChildren path finalMatches))"
proof -
  obtain usedA usedB finalMatches
    where g: "greedy (sortSlice L cost (pairMatches L e a b)) = (usedA, usedB, finalMatches)"
    by (cases "greedy (sortSlice L cost (pairMatches L e a b))") auto
  have "compareArraysByValue L e a b path =
          foldl (\<lambda>result m. noteChild result (setPath (diff m) (path @ [indexSegment (indexA m)])))
            (foldl noteUnmatched
               (foldl noteUnmatched (emptyResult a b path) (deletedChildren L e a path usedA))
               (addedChildren L e b path usedB))
            finalMatches"
    apply (subst compareArraysByValue.simps)
    apply (simp only: Let_def)
    apply (simp only: pairMatches_unfold greedy_unfold g prod.case)
    apply (simp only: emptyResult_def deletedChildren_def addedChildren_def)
    done
  then show ?thesis
    by (simp only: g prod.case matchedChildren_def foldl_map)
qed

lemma concat_map_if:
  "concat (map (\<lambda>key. if P key then [] else [f key]) ks) = map f (filter (\<lambda>key. \<not> P key) ks)"
  by (induction ks) simp_all

lemma compareObjects_unfold:
  assumes "\<not> IgnoreKeyCase (options e)"
  shows "compareObjects L e a b path =
           foldl noteChild (emptyResult a b path) (keyChildren L e a b path)"
  apply (subst compareObjects.simps)
  apply (simp only: Let_def assms if_False concat_map_if)
  apply (simp only: emptyResult_def keyChildren_def keySkipped_def objectKeys_def)
  done


definition lowerKeys :: "stdlib \<Rightarrow> StructuredData \<Rightarrow> StructuredData \<Rightarrow> string list" where
  "lowerKeys L a b =
     sort (remdups (map (toLower L \<circ> fst) (Children a) @ map (toLower L \<circ> fst) (Children b)))"

definition lowerChild :: "stdlib \<Rightarrow> StructuredData \<Rightarrow> string \<Rightarrow> StructuredData option" where
  "lowerChild L a lowerKey =
     (case lowerKeyMap L a lowerKey of None \<Rightarrow> None | Some k \<Rightarrow> map_of (Children a) k)"

definition displayKeyOf :: "stdlib \<Rightarrow> StructuredData \<Rightarrow> StructuredData \<Rightarrow> string \<Rightarrow> string" where
  "displayKeyOf L a b lowerKey =
     (case lowerKeyMap L b lowerKey of
        None \<Rightarrow> (case lowerKeyMap L a lowerKey of None \<Rightarrow> [] | Some ka \<Rightarrow> ka)
      | Some kb \<Rightarrow>
          if (case lowerKeyMap L a lowerKey of None \<Rightarrow> [] | Some ka \<Rightarrow> ka) = [] then kb
          else (case lowerKeyMap L a lowerKey of None \<Rightarrow> [] | Some ka \<Rightarrow> ka))"

definition lowerSkipped :: "stdlib \<Rightarrow> DiffEngine \<Rightarrow> StructuredData \<Rightarrow> StructuredData \<Rightarrow> string \<Rightarrow> bool" where
  "lowerSkipped L e a b lowerKey =
     (shouldIgnore e (lowerChild L a lowerKey) (lowerKeyMap L a lowerKey \<noteq> None)
      \<and> shouldIgnore e (lowerChild L b lowerKey) (lowerKeyMap L b lowerKey \<noteq> None))"

definition lowerChildren ::
  "stdlib \<Rightarrow> DiffEngine \<Rightarrow> StructuredData \<Rightarrow> StructuredData \<Rightarrow> string list \<Rightarrow> DiffResult list" where
  "lowerChildren L e a b path =
     map (\<lambda>lowerKey. compareWithPath L e (lowerChild L a lowerKey) (lowerChild L b lowerKey)
                      (path @ [displayKeyOf L a b lowerKey]))
       (filter (\<lambda>lowerKey. \<not> lowerSkipped L e a b lowerKey) (lowerKeys L a b))"

lemma compareObjectsIgnoreCase_unfold:
  "compareObjectsIgnoreCase L e a b path r = foldl noteChild r (lowerChildren L e a b path)"
  apply (subst compareObjectsIgnoreCase.simps)
  apply (simp only: Let_def concat_map_if)
  apply (simp only: lowerChildren_def lowerSkipped_def lowerChild_def displayKeyOf_def lowerKeys_def)
  done

lemma compareObjects_ignoreCase_unfold:
  assumes "IgnoreKeyCase (options e)"
  shows "compareObjects L e a b path =
           foldl noteChild (emptyResult a b path) (lowerChildren L e a b path)"
  apply (subst compareObjects.simps)
  apply (simp only: Let_def assms if_True compareObjectsIgnoreCase_unfold emptyResult_def)
  done

text \<open>The engine as the line splitter runs it: the strategy set to the index strategy.\<close>

definition indexEngine :: "DiffEngine \<Rightarrow> DiffEngine" where
  "indexEngine e = e\<lparr>options := (options e)\<lparr>ArrayDiffStrategy := ArrayStrategyIndex\<rparr>\<rparr>"

definition lineResult :: "stdlib \<Rightarrow> DiffEngine \<Rightarrow> StructuredData \<Rightarrow> StructuredData \<Rightarrow> string \<Rightarrow> string \<Rightarrow> string list \<Rightarrow> DiffResult" where
  "lineResult L e a b aStr bStr path =
     compareArraysByIndex L (indexEngine e)
       (lineArray a (splitLines aStr)) (lineArray b (splitLines bStr)) path"

lemma compareArrays_indexEngine:
  "compareArrays L (indexEngine e) a b path = compareArraysByIndex L (indexEngine e) a b path"
  by (simp add: compareArrays.simps indexEngine_def)

lemma compareMultilineStrings_unfold:
  assumes "asString (Value a) = Some aStr" and "asString (Value b) = Some bStr"
  shows "compareMultilineStrings L e a b path =
           Some (DiffResult (Status (lineResult L e a b aStr bStr path)) path (Some a) (Some b)
             (if Status (lineResult L e a b aStr bStr path) \<noteq> StatusSame
                 \<and> length (ChildrenD (lineResult L e a b aStr bStr path)) > 0
              then map relabelLine (ChildrenD (lineResult L e a b aStr bStr path)) else [])
             (MetaD (lineResult L e a b aStr bStr path)))"
  apply (subst compareMultilineStrings.simps)
  apply (simp only: assms option.case Let_def indexEngine_def [symmetric] compareArrays_indexEngine
      lineResult_def [symmetric])
  done

section \<open>The cases of compareWithPath\<close>

lemma compareWithPath_nil [simp]:
  "compareWithPath L e None None path = DiffResult StatusSame path None None [] None"
  "compareWithPath L e None (Some y) path =
     DiffResult StatusAdded path None (Some y) [] (newMeta (calculateSize (Some y)))"
  "compareWithPath L e (Some x) None path =
     DiffResult StatusDeleted path (Some x) None [] (newMeta (calculateSize (Some x)))"
  by (simp_all add: compareWithPath.simps)

lemma compareWithPath_mismatch:
  "Type x \<noteq> Type y \<Longrightarrow>
   compareWithPath L e (Some x) (Some y) path =
     DiffResult StatusModified path (Some x) (Some y) []
       (newMeta (calculateSize (Some x) + calculateSize (Some y)))"
  by (simp add: compareWithPath.simps)

lemma compareWithPath_Null:
  "Type x = TypeNull \<Longrightarrow> Type y = TypeNull \<Longrightarrow>
   compareWithPath L e (Some x) (Some y) path = DiffResult StatusSame path (Some x) (Some y) [] None"
  by (simp add: compareWithPath.simps)

lemma compareWithPath_Bool:
  "Type x = TypeBool \<Longrightarrow> Type y = TypeBool \<Longrightarrow>
   compareWithPath L e (Some x) (Some y) path =
     (if go_eq (Value x) (Value y) then DiffResult StatusSame path (Some x) (Some y) [] None
      else DiffResult StatusModified path (Some x) (Some y) [] (newMeta 1))"
  by (simp add: compareWithPath.simps)

lemma compareWithPath_Number:
  "Type x = TypeNumber \<Longrightarrow> Type y = TypeNumber \<Longrightarrow>
   compareWithPath L e (Some x) (Some y) path =
     (if equalNumbers (Value x) (Value y) then DiffResult StatusSame path (Some x) (Some y) [] None
      else DiffResult StatusModified path (Some x) (Some y) [] (newMeta 1))"
  by (simp add: compareWithPath.simps)

lemma compareWithPath_Array:
  "Type x = TypeArray \<Longrightarrow> Type y = TypeArray \<Longrightarrow>
   compareWithPath L e (Some x) (Some y) path = compareArrays L e x y path"
  by (simp add: compareWithPath.simps)

lemma compareWithPath_Object:
  "Type x = TypeObject \<Longrightarrow> Type y = TypeObject \<Longrightarrow>
   compareWithPath L e (Some x) (Some y) path = compareObjects L e x y path"
  by (simp add: compareWithPath.simps)

text \<open>
  The string equality of the engine: the interface comparison, and under
  \<^verbatim>\<open>IgnoreValueCase\<close> the case folding of two strings.
\<close>

definition stringsEqual :: "stdlib \<Rightarrow> DiffEngine \<Rightarrow> native \<Rightarrow> native \<Rightarrow> bool" where
  "stringsEqual L e v w =
     (go_eq v w \<or>
      (IgnoreValueCase (options e) \<and>
       (case asString v of None \<Rightarrow> False
        | Some aStr \<Rightarrow> (case asString w of None \<Rightarrow> False | Some bStr \<Rightarrow> equalFold L aStr bStr))))"

lemma compareWithPath_String_plain:
  "Type x = TypeString \<Longrightarrow> Type y = TypeString \<Longrightarrow> \<not> shouldDoLineDiff x y \<Longrightarrow>
   compareWithPath L e (Some x) (Some y) path =
     (if stringsEqual L e (Value x) (Value y)
      then DiffResult StatusSame path (Some x) (Some y) [] None
      else DiffResult StatusModified path (Some x) (Some y) [] (newMeta 1))"
  by (auto simp: compareWithPath.simps stringsEqual_def Let_def split: option.splits)

lemma shouldDoLineDiff_iff:
  "shouldDoLineDiff x y \<longleftrightarrow>
     Type x = TypeString \<and> Type y = TypeString \<and>
     (\<exists>s t. Value x = NString s \<and> Value y = NString t \<and> (newline \<in> set s \<or> newline \<in> set t))"
  by (auto simp: shouldDoLineDiff_def asString_def split: option.splits native.splits)

lemma asString_NString [simp]: "asString (NString s) = Some s"
  by (simp add: asString_def)

lemma compareWithPath_String_lines:
  assumes "Type x = TypeString" "Type y = TypeString"
    and "Value x = NString s" "Value y = NString t"
    and "newline \<in> set s \<or> newline \<in> set t"
  shows "compareWithPath L e (Some x) (Some y) path =
           DiffResult (Status (lineResult L e x y s t path)) path (Some x) (Some y)
             (if Status (lineResult L e x y s t path) \<noteq> StatusSame
                 \<and> length (ChildrenD (lineResult L e x y s t path)) > 0
              then map relabelLine (ChildrenD (lineResult L e x y s t path)) else [])
             (MetaD (lineResult L e x y s t path))"
proof -
  from assms have sd: "shouldDoLineDiff x y" by (auto simp: shouldDoLineDiff_iff)
  have "compareWithPath L e (Some x) (Some y) path = the (compareMultilineStrings L e x y path)"
    using assms(1,2) sd by (simp add: compareWithPath.simps)
  also have "compareMultilineStrings L e x y path = Some (DiffResult (Status (lineResult L e x y s t path)) path (Some x) (Some y)
             (if Status (lineResult L e x y s t path) \<noteq> StatusSame
                 \<and> length (ChildrenD (lineResult L e x y s t path)) > 0
              then map relabelLine (ChildrenD (lineResult L e x y s t path)) else [])
             (MetaD (lineResult L e x y s t path)))"
    by (rule compareMultilineStrings_unfold) (simp_all add: assms)
  finally show ?thesis by simp
qed


section \<open>Multiline strings\<close>

lemma sel_emptyResult [simp]:
  "Status (emptyResult a b path) = StatusSame" "Path (emptyResult a b path) = path"
  "From (emptyResult a b path) = Some a" "To (emptyResult a b path) = Some b"
  "ChildrenD (emptyResult a b path) = []" "hasMeta (emptyResult a b path)"
  "diffCount (emptyResult a b path) = 0"
  by (simp_all add: emptyResult_def)

lemma Elements_lineArray [simp]: "Elements (lineArray a ls) = map (lineValue a) ls"
  by (simp add: lineArray_def)

lemma sel_lineValue [simp]:
  "Type (lineValue a l) = TypeString" "Value (lineValue a l) = NString l"
  by (simp_all add: lineValue_def)

lemma options_indexEngine [simp]:
  "IgnoreValueCase (options (indexEngine e)) = IgnoreValueCase (options e)"
  "ArrayDiffStrategy (options (indexEngine e)) = ArrayStrategyIndex"
  by (simp_all add: indexEngine_def)

lemma indexSegment_shape:
  "indexSegment i \<noteq> [] \<and> hd (indexSegment i) = CHR ''[''
    \<and> last (indexSegment i) = CHR '']'' \<and> butlast (tl (indexSegment i)) = decimal i"
  by (simp add: indexSegment_def butlast_append)

lemma relabelLine_index:
  "Path c = path @ [indexSegment i] \<Longrightarrow>
   relabelLine c = setPath c (path @ [''line '' @ decimal i])"
  using indexSegment_shape [of i] by (simp add: relabelLine_def Let_def)

text \<open>
  The status of line \<open>i\<close> as the specification describes the positional comparison
  of the two line lists: added or deleted past the end of one list, otherwise same or
  modified by string equality (case-folded when \<open>ignoreCase\<close> is set).
\<close>

definition spec_lineStatus ::
  "(string \<Rightarrow> string \<Rightarrow> bool) \<Rightarrow> bool \<Rightarrow> string list \<Rightarrow> string list \<Rightarrow> nat \<Rightarrow> DiffStatus" where
  "spec_lineStatus eqFold ignoreCase ls lt i =
     (if length ls \<le> i then StatusAdded
      else if length lt \<le> i then StatusDeleted
      else if ls ! i = lt ! i \<or> (ignoreCase \<and> eqFold (ls ! i) (lt ! i)) then StatusSame
      else StatusModified)"

text \<open>The child that the index strategy computes for line \<open>i\<close>.\<close>

definition lineChild ::
  "stdlib \<Rightarrow> DiffEngine \<Rightarrow> StructuredData \<Rightarrow> StructuredData \<Rightarrow> string list \<Rightarrow> string list \<Rightarrow> string list \<Rightarrow> nat \<Rightarrow> DiffResult" where
  "lineChild L e x y ls lt path i =
     compareWithPath L (indexEngine e) (elemAt (map (lineValue x) ls) i)
       (elemAt (map (lineValue y) lt) i) (path @ [indexSegment i])"

text \<open>Every result carries the path it was asked for.\<close>

lemma Path_compareArrays [simp]: "Path (compareArrays L e x y path) = path"
  by (simp add: compareArrays.simps compareArraysByIndex_unfold compareArraysByValue_unfold
      split: prod.splits)

lemma Path_compareObjects [simp]: "Path (compareObjects L e x y path) = path"
  by (cases "IgnoreKeyCase (options e)")
    (simp_all add: compareObjects_unfold compareObjects_ignoreCase_unfold)

lemma Path_compareWithPath [simp]: "Path (compareWithPath L e a b path) = path"
proof (cases a)
  case None
  then show ?thesis by (cases b) simp_all
next
  case (Some x)
  show ?thesis
  proof (cases b)
    case None
    with Some show ?thesis by simp
  next
    case (Some y)
    show ?thesis
    proof (cases "Type x = Type y")
      case False
      then show ?thesis using \<open>a = Some x\<close> Some by (simp add: compareWithPath_mismatch)
    next
      case True
      show ?thesis
      proof (cases "shouldDoLineDiff x y")
        case sd: True
        then obtain s t where "Type x = TypeString" "Type y = TypeString"
          "Value x = NString s" "Value y = NString t" "newline \<in> set s \<or> newline \<in> set t"
          by (auto simp: shouldDoLineDiff_iff)
        then show ?thesis using \<open>a = Some x\<close> Some
          by (simp add: compareWithPath_String_lines)
      next
        case False
        then show ?thesis using True \<open>a = Some x\<close> Some
          by (cases "Type x")
            (simp_all add: compareWithPath_Null compareWithPath_Bool compareWithPath_Number
              compareWithPath_String_plain compareWithPath_Array compareWithPath_Object)
      qed
    qed
  qed
qed

lemma Path_lineChild [simp]: "Path (lineChild L e x y ls lt path i) = path @ [indexSegment i]"
  by (simp add: lineChild_def)

lemma Status_lineChild:
  assumes "i < max (length ls) (length lt)"
    and "\<And>l. l \<in> set ls \<Longrightarrow> newline \<notin> set l"
    and "\<And>l. l \<in> set lt \<Longrightarrow> newline \<notin> set l"
  shows "Status (lineChild L e x y ls lt path i) =
           spec_lineStatus (equalFold L) (IgnoreValueCase (options e)) ls lt i"
proof (cases "i < length ls \<and> i < length lt")
  case True
  then have "newline \<notin> set (ls ! i)" "newline \<notin> set (lt ! i)"
    using assms(2,3) by simp_all
  then have "\<not> shouldDoLineDiff (lineValue x (ls ! i)) (lineValue y (lt ! i))"
    by (simp add: shouldDoLineDiff_iff)
  with True show ?thesis
    by (simp add: lineChild_def elemAt_def compareWithPath_String_plain spec_lineStatus_def
        stringsEqual_def go_eq_def is_nan_payload_def)
next
  case False
  with assms(1) show ?thesis
    by (auto simp: lineChild_def elemAt_def spec_lineStatus_def)
qed

lemma lineResult_children:
  "ChildrenD (lineResult L e x y s t path) =
     map (lineChild L e x y (splitLines s) (splitLines t) path)
       [0..<max (length (splitLines s)) (length (splitLines t))]"
  by (simp add: lineResult_def compareArraysByIndex_unfold indexChildren_def lineChild_def)

lemma lineResult_Status:
  "Status (lineResult L e x y s t path) =
     (if \<exists>i < max (length (splitLines s)) (length (splitLines t)).
           Status (lineChild L e x y (splitLines s) (splitLines t) path i) \<noteq> StatusSame
      then StatusModified else StatusSame)"
proof -
  have "Status (lineResult L e x y s t path) =
          (if \<exists>c \<in> set (ChildrenD (lineResult L e x y s t path)). Status c \<noteq> StatusSame
           then StatusModified else StatusSame)"
    by (simp add: lineResult_def compareArraysByIndex_unfold foldl_noteChild_Status)
  then show ?thesis
    by (simp add: lineResult_children Bex_def)
qed


lemma lineChild_From_To [simp]:
  "From (lineChild L e x y ls lt path i) = elemAt (map (lineValue x) ls) i"
  "To (lineChild L e x y ls lt path i) = elemAt (map (lineValue y) lt) i"
  by (auto simp: lineChild_def elemAt_def compareWithPath.simps Let_def compareArrays.simps
      compareArraysByIndex_unfold compareArraysByValue_unfold compareObjects_unfold
      compareObjects_ignoreCase_unfold compareMultilineStrings_unfold
      split: option.splits DataType.splits prod.splits)


lemma indexEngine_strategy [simp]:
  "indexEngine (e\<lparr>options := (options e)\<lparr>ArrayDiffStrategy := strategy\<rparr>\<rparr>) = indexEngine e"
  by (simp add: indexEngine_def)

lemma lineResult_strategy:
  "lineResult L (e\<lparr>options := (options e)\<lparr>ArrayDiffStrategy := strategy\<rparr>\<rparr>) x y s t path
     = lineResult L e x y s t path"
  by (simp add: lineResult_def)

lemma multiline_example:
  "Status (DiffEngine_Compare asciiLib defaultEngine
       (Some (str [CHR ''a'', newline, CHR ''b'', newline, CHR ''c'']))
       (Some (str [CHR ''a'', newline, CHR ''X'', newline, CHR ''c'']))) = StatusModified
   \<and> map Path (filter (\<lambda>c. Status c \<noteq> StatusSame)
         (ChildrenD (DiffEngine_Compare asciiLib defaultEngine
            (Some (str [CHR ''a'', newline, CHR ''b'', newline, CHR ''c'']))
            (Some (str [CHR ''a'', newline, CHR ''X'', newline, CHR ''c'']))))) = [[''line 1'']]"
  by code_simp

text \<open>
  C6: when two String values are compared and either contains a line break, the result
  keeps the unsplit strings as from and to and the given path; its status is Same when
  every line position compares Same under the positional comparison of the two line
  lists and Modified otherwise; when it is not Same it has one child per line position,
  the child of position \<open>i\<close> at the path segment \<^verbatim>\<open>line i\<close>, comparing line \<open>i\<close> of the one
  string with line \<open>i\<close> of the other; the result is the same whatever array strategy is
  configured. Comparing \<^verbatim>\<open>a\nb\nc\<close> with \<^verbatim>\<open>a\nX\nc\<close> gives Modified with exactly one
  child that is not Same, at \<^verbatim>\<open>line 1\<close>.
\<close>

theorem C6_multiline_strings:
  assumes "Type x = TypeString" and "Type y = TypeString"
    and "Value x = NString s" and "Value y = NString t"
    and "newline \<in> set s \<or> newline \<in> set t"
  shows
    "(let r = compareWithPath L e (Some x) (Some y) path;
          ls = splitLines s; lt = splitLines t; n = max (length ls) (length lt)
      in From r = Some x \<and> To r = Some y \<and> Path r = path
         \<and> Status r =
              (if \<forall>i<n. spec_lineStatus (equalFold L) (IgnoreValueCase (options e)) ls lt i = StatusSame
               then StatusSame else StatusModified)
         \<and> (Status r = StatusSame \<longrightarrow> ChildrenD r = [])
         \<and> (Status r \<noteq> StatusSame \<longrightarrow>
               length (ChildrenD r) = n
               \<and> (\<forall>i<n. Path (ChildrenD r ! i) = path @ [''line '' @ decimal i]
                        \<and> Status (ChildrenD r ! i) =
                            spec_lineStatus (equalFold L) (IgnoreValueCase (options e)) ls lt i
                        \<and> From (ChildrenD r ! i) = elemAt (map (lineValue x) ls) i
                        \<and> To (ChildrenD r ! i) = elemAt (map (lineValue y) lt) i))
         \<and> compareWithPath L (e\<lparr>options := (options e)\<lparr>ArrayDiffStrategy := strategy\<rparr>\<rparr>)
               (Some x) (Some y) path = r)
     \<and> Status (DiffEngine_Compare asciiLib defaultEngine
           (Some (str [CHR ''a'', newline, CHR ''b'', newline, CHR ''c'']))
           (Some (str [CHR ''a'', newline, CHR ''X'', newline, CHR ''c'']))) = StatusModified
     \<and> map Path (filter (\<lambda>c. Status c \<noteq> StatusSame)
           (ChildrenD (DiffEngine_Compare asciiLib defaultEngine
              (Some (str [CHR ''a'', newline, CHR ''b'', newline, CHR ''c'']))
              (Some (str [CHR ''a'', newline, CHR ''X'', newline, CHR ''c'']))))) = [[''line 1'']]"
proof -
  define ls where "ls = splitLines s"
  define lt where "lt = splitLines t"
  define n where "n = max (length ls) (length lt)"
  define ar where "ar = lineResult L e x y s t path"
  define r where "r = compareWithPath L e (Some x) (Some y) path"
  define st where "st = spec_lineStatus (equalFold L) (IgnoreValueCase (options e)) ls lt"
  have r: "r = DiffResult (Status ar) path (Some x) (Some y)
             (if Status ar \<noteq> StatusSame \<and> length (ChildrenD ar) > 0
              then map relabelLine (ChildrenD ar) else []) (MetaD ar)"
    unfolding r_def ar_def by (rule compareWithPath_String_lines) (rule assms)+
  have ch: "ChildrenD ar = map (lineChild L e x y ls lt path) [0..<n]"
    unfolding ar_def ls_def lt_def n_def by (rule lineResult_children)
  have n: "0 < n"
    unfolding n_def ls_def by (simp add: length_splitLines)
  have nl: "\<And>l. l \<in> set ls \<Longrightarrow> newline \<notin> set l" "\<And>l. l \<in> set lt \<Longrightarrow> newline \<notin> set l"
    unfolding ls_def lt_def by (rule splitLines_no_newline, assumption)+
  have child: "Status (lineChild L e x y ls lt path i) = st i" if "i < n" for i
    unfolding st_def using that nl by (intro Status_lineChild) (simp_all add: n_def)
  have status: "Status ar = (if \<forall>i<n. st i = StatusSame then StatusSame else StatusModified)"
    unfolding ar_def lineResult_Status using child
    by (auto simp: ls_def lt_def n_def)
  have relabel: "relabelLine (lineChild L e x y ls lt path i) =
      setPath (lineChild L e x y ls lt path i) (path @ [''line '' @ decimal i])" for i
    by (rule relabelLine_index) simp
  have strat: "compareWithPath L (e\<lparr>options := (options e)\<lparr>ArrayDiffStrategy := strategy\<rparr>\<rparr>)
      (Some x) (Some y) path = r"
    unfolding r ar_def
    by (subst compareWithPath_String_lines [OF assms]) (simp only: lineResult_strategy)
  have "From r = Some x \<and> To r = Some y \<and> Path r = path
         \<and> Status r = (if \<forall>i<n. st i = StatusSame then StatusSame else StatusModified)
         \<and> (Status r = StatusSame \<longrightarrow> ChildrenD r = [])
         \<and> (Status r \<noteq> StatusSame \<longrightarrow>
               length (ChildrenD r) = n
               \<and> (\<forall>i<n. Path (ChildrenD r ! i) = path @ [''line '' @ decimal i]
                        \<and> Status (ChildrenD r ! i) = st i
                        \<and> From (ChildrenD r ! i) = elemAt (map (lineValue x) ls) i
                        \<and> To (ChildrenD r ! i) = elemAt (map (lineValue y) lt) i))"
    using n child by (simp add: r status relabel ch)
  with strat multiline_example show ?thesis
    unfolding Let_def r_def ls_def lt_def n_def st_def by blast
qed


theorem C6_multiline_strings_witness:
  "Type (str [CHR ''a'', newline, CHR ''b'']) = TypeString
   \<and> Type (str [CHR ''a'', newline, CHR ''X'']) = TypeString
   \<and> Value (str [CHR ''a'', newline, CHR ''b'']) = NString [CHR ''a'', newline, CHR ''b'']
   \<and> Value (str [CHR ''a'', newline, CHR ''X'']) = NString [CHR ''a'', newline, CHR ''X'']
   \<and> (newline \<in> set [CHR ''a'', newline, CHR ''b''] \<or> newline \<in> set [CHR ''a'', newline, CHR ''X''])
   \<and> From (compareWithPath asciiLib defaultEngine (Some (str [CHR ''a'', newline, CHR ''b'']))
          (Some (str [CHR ''a'', newline, CHR ''X''])) []) = Some (str [CHR ''a'', newline, CHR ''b''])
   \<and> compareWithPath asciiLib
         (defaultEngine\<lparr>options := (options defaultEngine)\<lparr>ArrayDiffStrategy := ArrayStrategyValue\<rparr>\<rparr>)
         (Some (str [CHR ''a'', newline, CHR ''b''])) (Some (str [CHR ''a'', newline, CHR ''X''])) []
       = compareWithPath asciiLib defaultEngine (Some (str [CHR ''a'', newline, CHR ''b'']))
          (Some (str [CHR ''a'', newline, CHR ''X''])) []"
proof -
  have h: "Type (str [CHR ''a'', newline, CHR ''b'']) = TypeString"
    "Type (str [CHR ''a'', newline, CHR ''X'']) = TypeString"
    "Value (str [CHR ''a'', newline, CHR ''b'']) = NString [CHR ''a'', newline, CHR ''b'']"
    "Value (str [CHR ''a'', newline, CHR ''X'']) = NString [CHR ''a'', newline, CHR ''X'']"
    "newline \<in> set [CHR ''a'', newline, CHR ''b''] \<or> newline \<in> set [CHR ''a'', newline, CHR ''X'']"
    by (simp_all add: str_def)
  from C6_multiline_strings [OF h, of asciiLib defaultEngine "[]" ArrayStrategyValue] h
  show ?thesis unfolding Let_def by blast
qed

section \<open>Ignore rules of the object comparison\<close>

definition zeroValuesEngine :: DiffEngine where
  "zeroValuesEngine = \<lparr>options = defaultOptions\<lparr>IgnoreZeroValues := True\<rparr>\<rparr>"

text \<open>
  C5 holds of the example it names, and of a zero that the JSON decoder produces (a
  \<^verbatim>\<open>float64\<close>), but not of every zero: \<^verbatim>\<open>shouldIgnore\<close> tests a Number by
  \<^verbatim>\<open>data.Value == 0 || data.Value == 0.0\<close>, which holds only of an \<^verbatim>\<open>int\<close> and of a
  \<^verbatim>\<open>float64\<close>. A zero of another numeric type, as the \<^verbatim>\<open>uint64\<close> below, is not
  ignorable, so the key is compared and reported deleted.
\<close>

theorem C5_uint64_zero_not_ignored:
  "\<not> shouldIgnore zeroValuesEngine (Some (number (NUint64 0))) True
   \<and> shouldIgnore zeroValuesEngine (Some (number (NFloat64 (Finite 0)))) True
   \<and> DiffEngine_Compare asciiLib zeroValuesEngine
        (Some (object [(''count'', number (NUint64 0))])) (Some (object [])) =
       DiffResult StatusModified []
         (Some (object [(''count'', number (NUint64 0))])) (Some (object []))
         [DiffResult StatusDeleted [''count''] (Some (number (NUint64 0))) None [] (newMeta 1)]
         (newMeta 1)
   \<and> DiffEngine_Compare asciiLib zeroValuesEngine
        (Some (object [(''count'', number (NFloat64 (Finite 0)))])) (Some (object [])) =
       DiffResult StatusSame []
         (Some (object [(''count'', number (NFloat64 (Finite 0)))])) (Some (object []))
         [] (newMeta 0)
   \<and> Status (DiffEngine_Compare asciiLib zeroValuesEngine
        (Some (object [(''name'', str ''John''), (''active'', boolean False)]))
        (Some (object [(''name'', str ''John'')]))) = StatusSame"
  by code_simp

section \<open>Paths under the value strategy\<close>

definition valueEngine :: DiffEngine where
  "valueEngine = \<lparr>options = defaultOptions\<lparr>ArrayDiffStrategy := ArrayStrategyValue\<rparr>\<rparr>"

text \<open>
  C4 fails under the value strategy. \<^verbatim>\<open>compareArraysByValue\<close> compares every pair of
  elements at the empty path and afterwards sets the path of the matched element's own
  node only, so the nodes below a matched element keep paths relative to the element:
  comparing \<^verbatim>\<open>[{k: 1}]\<close> with \<^verbatim>\<open>[{k: 2}]\<close> gives a child at \<^verbatim>\<open>[0]\<close> whose child is at
  \<^verbatim>\<open>k\<close>, not at \<^verbatim>\<open>[0].k\<close>. The index strategy hands the full path down.
\<close>

theorem C4_value_strategy_paths:
  "map Path (ChildrenD (DiffEngine_Compare asciiLib valueEngine
       (Some (array [object [(''k'', number (NInt 1))]]))
       (Some (array [object [(''k'', number (NInt 2))]])))) = [[''[0]'']]
   \<and> map Path (ChildrenD (hd (ChildrenD (DiffEngine_Compare asciiLib valueEngine
       (Some (array [object [(''k'', number (NInt 1))]]))
       (Some (array [object [(''k'', number (NInt 2))]])))))) = [[''k'']]
   \<and> map Path (ChildrenD (hd (ChildrenD (DiffEngine_Compare asciiLib defaultEngine
       (Some (array [object [(''k'', number (NInt 1))]]))
       (Some (array [object [(''k'', number (NInt 2))]])))))) = [[''[0]'', ''k'']]"
  by code_simp

section \<open>Context windowing of the unified formatter\<close>

record UnifiedFormatter =
  ShowOnlyDiff :: bool
  Verbose :: bool
  ContextLines :: int

text \<open>
  What the windowing functions do to the writer, in order: a literal write, or a call of
  \<^verbatim>\<open>formatDiff\<close> or \<^verbatim>\<open>formatLineDiff\<close> on a sibling (whose own text is not modelled).
  The writer is taken never to fail.
\<close>

datatype emit = Write string | FormatDiff DiffResult string | FormatLineDiff DiffResult string

fun hasChangedDescendants :: "DiffResult \<Rightarrow> bool" where
  "hasChangedDescendants (DiffResult status path from to children meta) =
     (if status \<noteq> StatusSame then True
      else list_ex hasChangedDescendants children)"

text \<open>
  The indices set by \<^verbatim>\<open>for i := 1; i <= f.ContextLines && idx-i >= 0; i++\<close> and by
  \<^verbatim>\<open>for i := 1; i <= f.ContextLines && idx+i < len(children); i++\<close>.
\<close>

definition contextBefore :: "int \<Rightarrow> nat \<Rightarrow> nat list" where
  "contextBefore c idx = map (\<lambda>i. idx - i) (takeWhile (\<lambda>i. int i \<le> c \<and> i \<le> idx) [1..<Suc idx])"

definition contextAfter :: "int \<Rightarrow> nat \<Rightarrow> nat \<Rightarrow> nat list" where
  "contextAfter c idx n = map (\<lambda>i. idx + i) (takeWhile (\<lambda>i. int i \<le> c \<and> idx + i < n) [1..<Suc n])"

definition markShown :: "int \<Rightarrow> nat \<Rightarrow> bool list \<Rightarrow> nat \<Rightarrow> bool list" where
  "markShown c n shown idx =
     foldl (\<lambda>s j. s[j := True]) (shown[idx := True]) (contextBefore c idx @ contextAfter c idx n)"

text \<open>The output loop: the state is what was written and \<^verbatim>\<open>prevShown\<close>.\<close>

definition emitShown :: "string \<Rightarrow> (DiffResult \<Rightarrow> emit) \<Rightarrow> bool list \<Rightarrow> DiffResult list \<Rightarrow> emit list" where
  "emitShown separator call shown items =
     fst (foldl (\<lambda>(out, prevShown) i.
            if shown ! i
            then (out @ (if \<not> prevShown \<and> i > 0 then [Write separator] else []) @ [call (items ! i)],
                  True)
            else (out, False))
          ([], False) [0..<length items])"

definition formatMultilineWithContext :: "UnifiedFormatter \<Rightarrow> DiffResult list \<Rightarrow> string \<Rightarrow> emit list" where
  "formatMultilineWithContext f lines indent =
     (let changedIndices = filter (\<lambda>i. Status (lines ! i) \<noteq> StatusSame) [0..<length lines]
      in if length changedIndices = 0 then []
         else
           (let showLine =
                  foldl (markShown (ContextLines f) (length lines))
                    (replicate (length lines) False) changedIndices
            in emitShown (''   '' @ indent @ ''...'' @ [newline])
                 (\<lambda>line. FormatLineDiff line indent) showLine lines))"

definition formatChildrenWithContext :: "UnifiedFormatter \<Rightarrow> DiffResult list \<Rightarrow> string \<Rightarrow> emit list" where
  "formatChildrenWithContext f children indent =
     (let changedIndices =
            filter (\<lambda>i. Status (children ! i) \<noteq> StatusSame \<or> hasChangedDescendants (children ! i))
              [0..<length children]
      in if length changedIndices = 0 then []
         else
           (let showChild =
                  foldl (markShown (ContextLines f) (length children))
                    (replicate (length children) False) changedIndices
            in emitShown (''  '' @ indent @ ''...'' @ [newline])
                 (\<lambda>child. FormatDiff child indent) showChild children))"

definition leaf :: "DiffStatus \<Rightarrow> string \<Rightarrow> DiffResult" where
  "leaf status key = DiffResult status [key] None None [] None"

definition contextOne :: UnifiedFormatter where
  "contextOne = \<lparr>ShowOnlyDiff = True, Verbose = False, ContextLines = 1\<rparr>"

lemma upt_small:
  "[0..<5] = [0, 1, 2, 3, 4]" "[1..<Suc 2] = [1, 2]" "[1..<Suc 5] = [1, 2, 3, 4, 5]"
  by code_simp+

lemma length_five:
  assumes "length cs = 5"
  shows "cs = [cs ! 0, cs ! 1, cs ! 2, cs ! 3, cs ! 4]"
proof -
  have "cs = map ((!) cs) [0..<length cs]" by (simp add: map_nth)
  with assms show ?thesis by (simp add: upt_small)
qed

lemma window_five:
  "foldl (markShown 1 5) (replicate 5 False) [2] = [False, True, True, True, False]"
  by code_simp

lemma emitShown_five:
  "emitShown separator call [False, True, True, True, False] [c0, c1, c2, c3, c4] =
     [Write separator, call c1, call c2, call c3]"
  by (simp add: emitShown_def upt_small)

text \<open>
  C8, as stated, fails: with five siblings of which only the one at index 2 is changed
  and one line of context, the siblings at 1, 2 and 3 are formatted, and an elision
  marker is written before them, because the sibling at index 0 was skipped
  (\<^verbatim>\<open>!prevShown && i > 0\<close> holds at \<^verbatim>\<open>i = 1\<close>).
\<close>

theorem C8_counterexample:
  "formatChildrenWithContext contextOne
     [leaf StatusSame ''a'', leaf StatusSame ''b'', leaf StatusModified ''c'',
      leaf StatusSame ''d'', leaf StatusSame ''e''] [] =
     [Write (''  ...'' @ [newline]), FormatDiff (leaf StatusSame ''b'') [],
      FormatDiff (leaf StatusModified ''c'') [], FormatDiff (leaf StatusSame ''d'') []]
   \<and> formatChildrenWithContext contextOne
     [leaf StatusSame ''a'', leaf StatusSame ''b'', leaf StatusModified ''c'',
      leaf StatusSame ''d'', leaf StatusSame ''e''] [] \<noteq>
     [FormatDiff (leaf StatusSame ''b'') [],
      FormatDiff (leaf StatusModified ''c'') [], FormatDiff (leaf StatusSame ''d'') []]"
  by code_simp

text \<open>
  C8, amended: with context size 1 and five siblings of which only the one at index 2
  has a changed subtree, the windower formats exactly the siblings at indices 1, 2 and 3,
  in this order, after writing one elision marker for the skipped sibling at index 0,
  and writes no marker after them; the same holds of the lines of a multiline string.
\<close>

theorem C8_context_window:
  assumes "ContextLines f = 1"
    and "length cs = 5" and "\<forall>i<5. hasChangedDescendants (cs ! i) \<longleftrightarrow> i = 2"
    and "length ls = 5" and "\<forall>i<5. Status (ls ! i) \<noteq> StatusSame \<longleftrightarrow> i = 2"
  shows "formatChildrenWithContext f cs indent =
           [Write (''  '' @ indent @ ''...'' @ [newline]),
            FormatDiff (cs ! 1) indent, FormatDiff (cs ! 2) indent, FormatDiff (cs ! 3) indent]
         \<and> formatMultilineWithContext f ls indent =
           [Write (''   '' @ indent @ ''...'' @ [newline]),
            FormatLineDiff (ls ! 1) indent, FormatLineDiff (ls ! 2) indent,
            FormatLineDiff (ls ! 3) indent]"
proof -
  have changed: "(Status d \<noteq> StatusSame \<or> hasChangedDescendants d) = hasChangedDescendants d"
    for d by (cases d) auto
  have "filter (\<lambda>i. hasChangedDescendants (cs ! i)) [0..<5] = [2]"
    using assms(3) by (simp add: upt_small)
  then have c: "filter (\<lambda>i. Status (cs ! i) \<noteq> StatusSame \<or> hasChangedDescendants (cs ! i)) [0..<5] = [2]"
    by (simp only: changed)
  have l: "filter (\<lambda>i. Status (ls ! i) \<noteq> StatusSame) [0..<5] = [2]"
    using assms(5) by (simp add: upt_small)
  have "formatChildrenWithContext f cs indent =
          emitShown (''  '' @ indent @ ''...'' @ [newline]) (\<lambda>child. FormatDiff child indent)
            [False, True, True, True, False] [cs ! 0, cs ! 1, cs ! 2, cs ! 3, cs ! 4]"
    unfolding formatChildrenWithContext_def assms(1,2) c Let_def window_five
    using length_five [OF assms(2)] by simp
  moreover have "formatMultilineWithContext f ls indent =
          emitShown (''   '' @ indent @ ''...'' @ [newline]) (\<lambda>line. FormatLineDiff line indent)
            [False, True, True, True, False] [ls ! 0, ls ! 1, ls ! 2, ls ! 3, ls ! 4]"
    unfolding formatMultilineWithContext_def assms(1,4) l Let_def window_five
    using length_five [OF assms(4)] by simp
  ultimately show ?thesis by (simp only: emitShown_five)
qed

theorem C8_context_window_witness:
  "ContextLines contextOne = 1
   \<and> length [leaf StatusSame ''a'', leaf StatusSame ''b'', leaf StatusModified ''c'',
         leaf StatusSame ''d'', leaf StatusSame ''e''] = 5
   \<and> map hasChangedDescendants
         [leaf StatusSame ''a'', leaf StatusSame ''b'', leaf StatusModified ''c'',
          leaf StatusSame ''d'', leaf StatusSame ''e''] = [False, False, True, False, False]
   \<and> map (\<lambda>d. Status d \<noteq> StatusSame)
         [leaf StatusSame ''a'', leaf StatusSame ''b'', leaf StatusModified ''c'',
          leaf StatusSame ''d'', leaf StatusSame ''e''] = [False, False, True, False, False]
   \<and> formatChildrenWithContext contextOne
        [leaf StatusSame ''a'', leaf StatusSame ''b'', leaf StatusModified ''c'',
         leaf StatusSame ''d'', leaf StatusSame ''e''] [] =
       [Write (''  ...'' @ [newline]), FormatDiff (leaf StatusSame ''b'') [],
        FormatDiff (leaf StatusModified ''c'') [], FormatDiff (leaf StatusSame ''d'') []]
   \<and> formatMultilineWithContext contextOne
        [leaf StatusSame ''a'', leaf StatusSame ''b'', leaf StatusModified ''c'',
         leaf StatusSame ''d'', leaf StatusSame ''e''] [] =
       [Write (''   ...'' @ [newline]), FormatLineDiff (leaf StatusSame ''b'') [],
        FormatLineDiff (leaf StatusModified ''c'') [], FormatLineDiff (leaf StatusSame ''d'') []]"
proof -
  let ?cs = "[leaf StatusSame ''a'', leaf StatusSame ''b'', leaf StatusModified ''c'',
         leaf StatusSame ''d'', leaf StatusSame ''e'']"
  have five: "i < 5 \<longleftrightarrow> i = 0 \<or> i = 1 \<or> i = 2 \<or> i = 3 \<or> i = (4::nat)" for i
    by arith
  have h1: "ContextLines contextOne = 1" by (simp add: contextOne_def)
  have h2: "length ?cs = 5" by simp
  have h3: "\<forall>i<5. hasChangedDescendants (?cs ! i) \<longleftrightarrow> i = 2"
    by (auto simp: five leaf_def)
  have h4: "\<forall>i<5. Status (?cs ! i) \<noteq> StatusSame \<longleftrightarrow> i = 2"
    by (auto simp: five leaf_def)
  have m: "map hasChangedDescendants ?cs = [False, False, True, False, False]"
    "map (\<lambda>d. Status d \<noteq> StatusSame) ?cs = [False, False, True, False, False]"
    by (simp_all add: leaf_def)
  from C8_context_window [OF h1 h2 h3 h2 h4, of "[]"] h1 h2 m show ?thesis
    by simp
qed

section \<open>Multi-document comparison (diff.go: Compare)\<close>

text \<open>
  \<^verbatim>\<open>fieldValuesMatch\<close>: a top-level field has the same type and the same payload in both
  documents, or is missing from both.
\<close>

definition fieldValuesMatch :: "StructuredData \<Rightarrow> StructuredData \<Rightarrow> string \<Rightarrow> bool" where
  "fieldValuesMatch a b fieldName =
     (case map_of (Children a) fieldName of
        None \<Rightarrow> (case map_of (Children b) fieldName of None \<Rightarrow> True | Some fieldB \<Rightarrow> False)
      | Some fieldA \<Rightarrow>
          (case map_of (Children b) fieldName of
             None \<Rightarrow> False
           | Some fieldB \<Rightarrow>
               if Type fieldA \<noteq> Type fieldB then False
               else go_eq (Value fieldA) (Value fieldB)))"

definition metadataFieldValuesMatch :: "StructuredData \<Rightarrow> StructuredData \<Rightarrow> string \<Rightarrow> bool" where
  "metadataFieldValuesMatch a b fieldName =
     (case map_of (Children a) ''metadata'' of
        None \<Rightarrow> (case map_of (Children b) ''metadata'' of None \<Rightarrow> True | Some metaB \<Rightarrow> False)
      | Some metaA \<Rightarrow>
          (case map_of (Children b) ''metadata'' of
             None \<Rightarrow> False
           | Some metaB \<Rightarrow>
               if Type metaA \<noteq> TypeObject \<or> Type metaB \<noteq> TypeObject then False
               else fieldValuesMatch metaA metaB fieldName))"

definition calculateResourceMismatchPenalty ::
  "StructuredData option \<Rightarrow> StructuredData option \<Rightarrow> int" where
  "calculateResourceMismatchPenalty a b =
     (case a of
        None \<Rightarrow> 0
      | Some x \<Rightarrow>
          (case b of
             None \<Rightarrow> 0
           | Some y \<Rightarrow>
               if Type x \<noteq> TypeObject \<or> Type y \<noteq> TypeObject then 0
               else if map_of (Children x) ''kind'' = None \<and> map_of (Children y) ''kind'' = None then 0
               else
                 (if \<not> fieldValuesMatch x y ''kind'' then 2 ^ 20 else 0)
                 + (if \<not> fieldValuesMatch x y ''apiVersion'' then 50 else 0)
                 + (if \<not> metadataFieldValuesMatch x y ''name'' then 10 else 0)
                 + (if \<not> metadataFieldValuesMatch x y ''namespace'' then 5 else 0)))"

subsection \<open>The assignment solver\<close>

text \<open>
  The arrays of \<^verbatim>\<open>hungarianAlgorithm\<close>, all of length \<open>n + 1\<close>; \<open>j0\<close> is the current
  column. Every index the algorithm uses is a row or column number between 0 and \<open>n\<close>.
\<close>

record hungarian =
  uH :: "int list"
  vH :: "int list"
  pH :: "nat list"
  wayH :: "nat list"
  minvH :: "int list"
  usedH :: "bool list"
  j0H :: nat

text \<open>
  One pass of \<^verbatim>\<open>for j := 1; j <= n; j++\<close> inside the search: the state is
  \<open>(minv, way, delta, j1)\<close>.
\<close>

definition scanColumn ::
  "int list list \<Rightarrow> hungarian \<Rightarrow> nat \<Rightarrow> int list \<times> nat list \<times> int \<times> nat \<Rightarrow> nat
     \<Rightarrow> int list \<times> nat list \<times> int \<times> nat" where
  "scanColumn costs s i0 st j =
     (case st of (minv, way, delta, j1) \<Rightarrow>
        if \<not> usedH s ! j then
          (let cur = costs ! (i0 - 1) ! (j - 1) - uH s ! i0 - vH s ! j;
               (minv, way) = (if cur < minv ! j then (minv[j := cur], way[j := j0H s]) else (minv, way));
               (delta, j1) = (if minv ! j < delta then (minv ! j, j) else (delta, j1))
           in (minv, way, delta, j1))
        else (minv, way, delta, j1))"

text \<open>One pass of \<^verbatim>\<open>for j := range n + 1\<close>, the update of the potentials.\<close>

definition updatePotential ::
  "int \<Rightarrow> bool list \<Rightarrow> nat list \<Rightarrow> int list \<times> int list \<times> int list \<Rightarrow> nat \<Rightarrow> int list \<times> int list \<times> int list" where
  "updatePotential delta used p st j =
     (case st of (u, v, minv) \<Rightarrow>
        if used ! j then (u[p ! j := u ! (p ! j) + delta], v[j := v ! j - delta], minv)
        else (u, v, minv[j := minv ! j - delta]))"

text \<open>The body of \<^verbatim>\<open>for p[j0] != 0\<close>.\<close>

definition searchStep :: "int list list \<Rightarrow> nat \<Rightarrow> hungarian \<Rightarrow> hungarian" where
  "searchStep costs n s =
     (let s = s\<lparr>usedH := (usedH s)[j0H s := True]\<rparr>;
          i0 = pH s ! j0H s;
          (minv, way, delta, j1) = foldl (scanColumn costs s i0) (minvH s, wayH s, 2 ^ 30, 0) [1..<Suc n];
          (u, v, minv) = foldl (updatePotential delta (usedH s) (pH s)) (uH s, vH s, minv) [0..<Suc n]
      in s\<lparr>uH := u, vH := v, wayH := way, minvH := minv, j0H := j1\<rparr>)"

partial_function (option) search :: "int list list \<Rightarrow> nat \<Rightarrow> hungarian \<Rightarrow> hungarian option" where
  "search costs n s = (if pH s ! j0H s \<noteq> 0 then search costs n (searchStep costs n s) else Some s)"

text \<open>\<^verbatim>\<open>for j0 != 0 { j1 := way[j0]; p[j0] = p[j1]; j0 = j1 }\<close>.\<close>

partial_function (option) reconstruct :: "hungarian \<Rightarrow> hungarian option" where
  "reconstruct s =
     (if j0H s \<noteq> 0 then
        (let j1 = wayH s ! j0H s
         in reconstruct (s\<lparr>pH := (pH s)[j0H s := pH s ! j1], j0H := j1\<rparr>))
      else Some s)"

declare search.simps [code] reconstruct.simps [code]

text \<open>The body of \<^verbatim>\<open>for i := 1; i <= n; i++\<close>.\<close>

definition augmentRow :: "int list list \<Rightarrow> nat \<Rightarrow> hungarian \<Rightarrow> nat \<Rightarrow> hungarian option" where
  "augmentRow costs n s i =
     (let s = s\<lparr>pH := (pH s)[0 := i], j0H := 0,
                minvH := replicate (n + 1) (2 ^ 30), usedH := replicate (n + 1) False\<rparr>
      in case search costs n s of None \<Rightarrow> None | Some s \<Rightarrow> reconstruct s)"

fun augmentRows :: "int list list \<Rightarrow> nat \<Rightarrow> hungarian \<Rightarrow> nat list \<Rightarrow> hungarian option" where
  "augmentRows costs n s [] = Some s"
| "augmentRows costs n s (i # rows) =
     (case augmentRow costs n s i of None \<Rightarrow> None | Some s \<Rightarrow> augmentRows costs n s rows)"

definition hungarianAlgorithm :: "int list list \<Rightarrow> nat list option" where
  "hungarianAlgorithm costMatrix =
     (let n = length costMatrix
      in if n = 0 then Some []
         else
           (let s = \<lparr>uH = replicate (n + 1) 0, vH = replicate (n + 1) 0, pH = replicate (n + 1) 0,
                     wayH = replicate (n + 1) 0, minvH = [], usedH = [], j0H = 0\<rparr>
            in case augmentRows costMatrix n s [1..<Suc n] of
                 None \<Rightarrow> None
               | Some s \<Rightarrow>
                   Some (foldl (\<lambda>assignment j.
                           if pH s ! j \<noteq> 0 then assignment[pH s ! j - 1 := j - 1] else assignment)
                         (replicate n 0) [1..<Suc n])))"

subsection \<open>Compare\<close>

text \<open>The cost matrix, entry by entry as the four quadrant loops fill it.\<close>

definition costMatrix ::
  "stdlib \<Rightarrow> DiffEngine \<Rightarrow> StructuredData list \<Rightarrow> StructuredData list \<Rightarrow> int list list" where
  "costMatrix L e docsA docsB =
     (let n = length docsA + length docsB
      in map (\<lambda>i. map (\<lambda>j.
           if i < length docsA then
             (if j < length docsB then
                diffCount (DiffEngine_Compare L e (Some (docsA ! i)) (Some (docsB ! j)))
                + calculateResourceMismatchPenalty (Some (docsA ! i)) (Some (docsB ! j))
              else if j - length docsB = i then
                diffCount (DiffEngine_Compare L e (Some (docsA ! i)) None)
              else 2 ^ 30)
           else
             (if j < length docsB then
                (if i - length docsA = j then
                   diffCount (DiffEngine_Compare L e None (Some (docsB ! j)))
                 else 2 ^ 30)
              else 0)) [0..<n]) [0..<n])"

definition Compare ::
  "stdlib \<Rightarrow> StructuredData list \<Rightarrow> StructuredData list \<Rightarrow> DiffOptions \<Rightarrow> DiffResult list option" where
  "Compare L docsA docsB opts =
     (let engine = \<lparr>options = opts\<rparr>
      in if length docsA = 1 \<and> length docsB = 1
         then Some [DiffEngine_Compare L engine (Some (docsA ! 0)) (Some (docsB ! 0))]
         else if length docsA + length docsB = 0 then Some []
         else
           (case hungarianAlgorithm (costMatrix L engine docsA docsB) of
              None \<Rightarrow> None
            | Some assignment \<Rightarrow>
                (let results =
                       map (\<lambda>i. let j = assignment ! i
                                 in if j < length docsB
                                    then DiffEngine_Compare L engine (Some (docsA ! i)) (Some (docsB ! j))
                                    else DiffEngine_Compare L engine (Some (docsA ! i)) None)
                         [0..<length docsA];
                     matchedB =
                       set (filter (\<lambda>j. j < length docsB) (map (\<lambda>i. assignment ! i) [0..<length docsA]))
                 in Some (results @
                      map (\<lambda>j. DiffEngine_Compare L engine None (Some (docsB ! j)))
                        (filter (\<lambda>j. j \<notin> matchedB) [0..<length docsB])))))"

text \<open>\<^verbatim>\<open>HasDifferences\<close> (controller.go).\<close>

definition HasDifferences :: "DiffResult list \<Rightarrow> bool" where
  "HasDifferences results = list_ex (\<lambda>result. Status result \<noteq> StatusSame) results"

section \<open>Pairing documents by kind\<close>

definition podA :: StructuredData where
  "podA = object [(''kind'', str ''Pod''), (''name'', str ''x'')]"

definition serviceA :: StructuredData where
  "serviceA = object [(''kind'', str ''Service''), (''name'', str ''y'')]"

definition podB :: StructuredData where
  "podB = object [(''kind'', str ''Pod''), (''name'', str ''x2'')]"

definition serviceB :: StructuredData where
  "serviceB = object [(''kind'', str ''Service''), (''name'', str ''y2'')]"

text \<open>
  The kind fields of two documents differ, as far as \<^verbatim>\<open>fieldValuesMatch\<close> looks: the field
  is present in one document only, or present in both with different types or different
  payloads. The elements of an array and the children of an object are not looked at.
\<close>

definition kindDiffers :: "StructuredData \<Rightarrow> StructuredData \<Rightarrow> bool" where
  "kindDiffers x y =
     (case map_of (Children x) ''kind'' of
        None \<Rightarrow> map_of (Children y) ''kind'' \<noteq> None
      | Some kindX \<Rightarrow>
          (case map_of (Children y) ''kind'' of
             None \<Rightarrow> True
           | Some kindY \<Rightarrow> Type kindX \<noteq> Type kindY \<or> Value kindX \<noteq> Value kindY))"

lemma penalty_nonneg_parts:
  "0 \<le> (if a then (50::int) else 0) + (if b then 10 else 0) + (if c then 5 else 0)"
  by simp

lemma kind_penalty:
  assumes "Type x = TypeObject" and "Type y = TypeObject" and "kindDiffers x y"
  shows "2 ^ 20 \<le> calculateResourceMismatchPenalty (Some x) (Some y)"
proof -
  from assms(3) have present: "\<not> (map_of (Children x) ''kind'' = None \<and> map_of (Children y) ''kind'' = None)"
    by (auto simp: kindDiffers_def split: option.splits)
  from assms(3) have "\<not> fieldValuesMatch x y ''kind''"
    by (auto simp: kindDiffers_def fieldValuesMatch_def go_eq_def split: option.splits)
  with assms(1,2) present show ?thesis
    by (simp add: calculateResourceMismatchPenalty_def)
qed

lemma costMatrix_pair:
  assumes "i < length docsA" and "j < length docsB"
  shows "costMatrix L e docsA docsB ! i ! j =
           diffCount (DiffEngine_Compare L e (Some (docsA ! i)) (Some (docsB ! j)))
           + calculateResourceMismatchPenalty (Some (docsA ! i)) (Some (docsB ! j))"
  using assms by (simp add: costMatrix_def Let_def)

lemma pairing_example:
  "Compare asciiLib [podA, serviceA] [serviceB, podB] defaultOptions =
     Some [DiffEngine_Compare asciiLib defaultEngine (Some podA) (Some podB),
           DiffEngine_Compare asciiLib defaultEngine (Some serviceA) (Some serviceB)]"
  "Compare asciiLib [podA, serviceA] [podB, serviceB] defaultOptions =
     Some [DiffEngine_Compare asciiLib defaultEngine (Some podA) (Some podB),
           DiffEngine_Compare asciiLib defaultEngine (Some serviceA) (Some serviceB)]"
  by code_simp+

section \<open>Pairing where the penalty decides\<close>







section \<open>The statuses of a result tree\<close>

text \<open>A result and everything beneath it, in preorder; and what is strictly beneath it.\<close>

fun nodes :: "DiffResult \<Rightarrow> DiffResult list" where
  "nodes (DiffResult s p f t cs m) = DiffResult s p f t cs m # concat (map nodes cs)"

definition descendants :: "DiffResult \<Rightarrow> DiffResult list" where
  "descendants d = concat (map nodes (ChildrenD d))"

text \<open>
  The invariant of the engine's results: a result with children is Modified when a child
  is not Same and Same otherwise, and so on beneath it.
\<close>

fun consistent :: "DiffResult \<Rightarrow> bool" where
  "consistent (DiffResult s p f t cs m) =
     ((cs \<noteq> [] \<longrightarrow>
         s = (if \<exists>c \<in> set cs. Status c \<noteq> StatusSame then StatusModified else StatusSame))
      \<and> (\<forall>c \<in> set cs. consistent c))"

lemma consistent_iff:
  "consistent d \<longleftrightarrow>
     (ChildrenD d \<noteq> [] \<longrightarrow>
        Status d = (if \<exists>c \<in> set (ChildrenD d). Status c \<noteq> StatusSame
                    then StatusModified else StatusSame))
     \<and> (\<forall>c \<in> set (ChildrenD d). consistent c)"
  by (cases d) simp

lemma consistent_leaf: "ChildrenD d = [] \<Longrightarrow> consistent d"
  by (cases d) simp

lemma consistent_setPath [simp]: "consistent (setPath d p) = consistent d"
  by (cases d) (simp add: setPath_def)

lemma Status_relabelLine [simp]: "Status (relabelLine d) = Status d"
  by (simp add: relabelLine_def Let_def)

lemma consistent_relabelLine [simp]: "consistent (relabelLine d) = consistent d"
  by (simp add: relabelLine_def Let_def)

lemma nodes_self: "d \<in> set (nodes d)"
  by (cases d) simp

lemma nodes_unfold: "set (nodes d) = insert d (\<Union>c \<in> set (ChildrenD d). set (nodes c))"
  by (cases d) auto

lemma consistent_nodes: "consistent d \<Longrightarrow> n \<in> set (nodes d) \<Longrightarrow> consistent n"
  by (induction d rule: nodes.induct) auto

lemma changed_node_changes_root:
  "consistent d \<Longrightarrow> n \<in> set (nodes d) \<Longrightarrow> Status n \<noteq> StatusSame \<Longrightarrow> Status d \<noteq> StatusSame"
proof (induction d rule: nodes.induct)
  case (1 s p f t cs m)
  show ?case
  proof (cases "n = DiffResult s p f t cs m")
    case True
    with 1 show ?thesis by simp
  next
    case False
    with 1(3) obtain c where c: "c \<in> set cs" "n \<in> set (nodes c)" by auto
    with 1 have sc: "Status c \<noteq> StatusSame" by auto
    with c(1) have ex: "\<exists>c \<in> set cs. Status c \<noteq> StatusSame" by blast
    from c(1) have "cs \<noteq> []" by auto
    with 1(2) ex have "s = StatusModified" by simp
    then show ?thesis by simp
  qed
qed

lemma consistent_descendants:
  assumes "consistent n" and "ChildrenD n \<noteq> []"
  shows "Status n = StatusModified \<longleftrightarrow> (\<exists>d \<in> set (descendants n). Status d \<noteq> StatusSame)"
proof -
  have c: "\<forall>c \<in> set (ChildrenD n). consistent c"
    using assms(1) by (subst (asm) consistent_iff) simp
  have "(\<exists>d \<in> set (descendants n). Status d \<noteq> StatusSame)
          \<longleftrightarrow> (\<exists>c \<in> set (ChildrenD n). Status c \<noteq> StatusSame)"
    using c by (auto simp: descendants_def intro: nodes_self dest: changed_node_changes_root)
  moreover have "Status n = (if \<exists>c \<in> set (ChildrenD n). Status c \<noteq> StatusSame
                    then StatusModified else StatusSame)"
    using assms by (subst (asm) consistent_iff) simp
  ultimately show ?thesis by simp
qed

lemma consistent_foldl_noteChild:
  assumes "\<forall>c \<in> set cs. consistent c"
  shows "consistent (foldl noteChild (emptyResult a b path) cs)"
  by (subst consistent_iff) (simp add: foldl_noteChild_Status assms)

lemma greedy_subset:
  "set (snd (snd (foldl greedyStep s ms))) \<subseteq> set (snd (snd s)) \<union> set ms"
proof (induction ms arbitrary: s)
  case Nil
  show ?case by simp
next
  case (Cons m ms)
  have "set (snd (snd (greedyStep s m))) \<subseteq> set (snd (snd s)) \<union> {m}"
    by (cases s) (auto simp: greedyStep_def)
  with Cons [of "greedyStep s m"] show ?case by auto
qed

lemma greedy_matches: "greedy ms = (usedA, usedB, finalMatches) \<Longrightarrow> set finalMatches \<subseteq> set ms"
  using greedy_subset [of "({}, {}, [])" ms] by (simp add: greedy_def)

lemma deletedChildren_leaf:
  "c \<in> set (deletedChildren L e a path usedA) \<Longrightarrow> Status c = StatusDeleted \<and> ChildrenD c = []"
  by (auto simp: deletedChildren_def)

lemma addedChildren_leaf:
  "c \<in> set (addedChildren L e b path usedB) \<Longrightarrow> Status c = StatusAdded \<and> ChildrenD c = []"
  by (auto simp: addedChildren_def)

lemma consistent_value:
  assumes "\<forall>m \<in> set finalMatches. consistent (diff m)"
  shows "consistent
     (foldl noteChild
        (foldl noteUnmatched
           (foldl noteUnmatched (emptyResult a b path) (deletedChildren L e a path usedA))
           (addedChildren L e b path usedB))
        (matchedChildren path finalMatches))"
proof -
  let ?ds = "deletedChildren L e a path usedA"
  let ?as = "addedChildren L e b path usedB"
  have d: "\<forall>c \<in> set ?ds. Status c \<noteq> StatusSame \<and> consistent c"
    using deletedChildren_leaf [of _ L e a path usedA] by (auto intro: consistent_leaf)
  have a: "\<forall>c \<in> set ?as. Status c \<noteq> StatusSame \<and> consistent c"
    using addedChildren_leaf [of _ L e b path usedB] by (auto intro: consistent_leaf)
  have m: "\<forall>c \<in> set (matchedChildren path finalMatches). consistent c"
    using assms by (auto simp: matchedChildren_def)
  have dne: "?ds \<noteq> [] \<Longrightarrow> \<exists>c \<in> set ?ds. Status c \<noteq> StatusSame"
    using d by (cases ?ds) auto
  have ane: "?as \<noteq> [] \<Longrightarrow> \<exists>c \<in> set ?as. Status c \<noteq> StatusSame"
    using a by (cases ?as) auto
  show ?thesis
    apply (subst consistent_iff)
    apply (simp only: foldl_noteChild_sel foldl_noteUnmatched_sel foldl_noteChild_Status
        foldl_noteUnmatched_Status sel_emptyResult append_Nil set_append)
    using d a m dne ane by auto
qed


lemma lineChild_consistent_step:
  assumes "shouldDoLineDiff x y" and "Value x = NString s" and "Value y = NString t"
  shows "mopt (elemAt (map (lineValue x) (splitLines s)) i)
           + mopt (elemAt (map (lineValue y) (splitLines t)) i) < msz x + msz y"
proof -
  have "mopt (elemAt (Elements (lineArray x (splitLines s))) i) < msz (lineArray x (splitLines s))"
    by (rule mopt_elemAt)
  then have a: "mopt (elemAt (map (lineValue x) (splitLines s)) i) < mlines x"
    by (simp add: msz_lineArray mlines_def assms(2))
  have "mopt (elemAt (Elements (lineArray y (splitLines t))) i) < msz (lineArray y (splitLines t))"
    by (rule mopt_elemAt)
  then have b: "mopt (elemAt (map (lineValue y) (splitLines t)) i) < mlines y"
    by (simp add: msz_lineArray mlines_def assms(3))
  from a b mlines_le [OF assms(1)] show ?thesis by arith
qed

lemma pairMatches_diff:
  "m \<in> set (pairMatches L e a b) \<Longrightarrow>
   \<exists>x \<in> set (Elements a). \<exists>y \<in> set (Elements b). diff m = compareWithPath L e (Some x) (Some y) []"
proof -
  assume "m \<in> set (pairMatches L e a b)"
  then obtain i j where ij: "i < length (Elements a)" "j < length (Elements b)"
    and m: "m = pairMatch L e a b i j"
    by (auto simp: pairMatches_def)
  from ij have "Elements a ! i \<in> set (Elements a)" "Elements b ! j \<in> set (Elements b)"
    by simp_all
  moreover have "diff m = compareWithPath L e (Some (Elements a ! i)) (Some (Elements b ! j)) []"
    by (simp add: m pairMatch_def)
  ultimately show ?thesis by blast
qed

lemma consistent_compareWithPath:
  assumes sortOK: "\<And>f ms. set (sortSlice L f ms) \<subseteq> set ms"
  shows "consistent (compareWithPath L e a b path)"
proof (induction "mopt a + mopt b" arbitrary: e a b path rule: less_induct)
  case less
  show ?case
  proof (cases a)
    case None
    then show ?thesis by (cases b) (simp_all add: consistent_leaf)
  next
    case (Some x)
    note a = Some
    show ?thesis
    proof (cases b)
      case None
      with a show ?thesis by (simp add: consistent_leaf)
    next
      case (Some y)
      note b = Some
      have IH: "consistent (compareWithPath L e' a' b' path')"
        if "mopt a' + mopt b' < msz x + msz y" for e' a' b' path'
        using less [of a' b' e' path'] that a b by simp
      show ?thesis
      proof (cases "Type x = Type y")
        case False
        then show ?thesis using a b by (simp add: compareWithPath_mismatch consistent_leaf)
      next
        case True
        show ?thesis
        proof (cases "Type x")
          case TypeNull
          with True show ?thesis using a b by (simp add: compareWithPath_Null consistent_leaf)
        next
          case TypeBool
          with True show ?thesis using a b by (simp add: compareWithPath_Bool consistent_leaf)
        next
          case TypeNumber
          with True show ?thesis using a b by (simp add: compareWithPath_Number consistent_leaf)
        next
          case TypeString
          show ?thesis
          proof (cases "shouldDoLineDiff x y")
            case False
            with TypeString True show ?thesis using a b
              by (simp add: compareWithPath_String_plain consistent_leaf)
          next
            case sd: True
            then obtain s t where v: "Value x = NString s" "Value y = NString t"
              and nl: "newline \<in> set s \<or> newline \<in> set t"
              by (auto simp: shouldDoLineDiff_iff)
            let ?lr = "lineResult L e x y s t path"
            have kids: "\<forall>c \<in> set (ChildrenD ?lr). consistent c"
              using IH [OF lineChild_consistent_step [OF sd v]]
              by (auto simp: lineResult_children lineChild_def)
            have st: "Status ?lr = (if \<exists>c \<in> set (ChildrenD ?lr). Status c \<noteq> StatusSame
                         then StatusModified else StatusSame)"
              by (simp add: lineResult_def compareArraysByIndex_unfold foldl_noteChild_Status)
            have eq: "compareWithPath L e (Some x) (Some y) path =
                DiffResult (Status ?lr) path (Some x) (Some y)
                  (if Status ?lr \<noteq> StatusSame \<and> length (ChildrenD ?lr) > 0
                   then map relabelLine (ChildrenD ?lr) else [])
                  (MetaD ?lr)"
              using TypeString True v nl by (intro compareWithPath_String_lines) simp_all
            have "consistent (DiffResult (Status ?lr) path (Some x) (Some y)
                  (if Status ?lr \<noteq> StatusSame \<and> length (ChildrenD ?lr) > 0
                   then map relabelLine (ChildrenD ?lr) else [])
                  (MetaD ?lr))"
            proof (cases "Status ?lr \<noteq> StatusSame \<and> length (ChildrenD ?lr) > 0")
              case False
              show ?thesis by (simp only: False if_False) simp
            next
              case True
              have "consistent (DiffResult (Status ?lr) path (Some x) (Some y)
                  (map relabelLine (ChildrenD ?lr)) (MetaD ?lr))"
                using kids by (simp add: st)
              moreover from True
              have "(Status ?lr \<noteq> StatusSame \<and> length (ChildrenD ?lr) > 0) = True" by simp
              ultimately show ?thesis by (simp only: if_True)
            qed
            then show ?thesis unfolding a b eq .
          qed
        next
          case TypeArray
          have eq: "compareWithPath L e (Some x) (Some y) path = compareArrays L e x y path"
            using TypeArray True by (simp add: compareWithPath_Array)
          show ?thesis
          proof (cases "ArrayDiffStrategy (options e) = ArrayStrategyValue")
            case False
            have "\<forall>c \<in> set (indexChildren L e x y path). consistent c"
              using mopt_elemAt [of x] mopt_elemAt [of y]
              by (auto simp: indexChildren_def intro!: IH add_less_mono)
            then show ?thesis unfolding a b eq using False
              by (simp add: compareArrays.simps compareArraysByIndex_unfold
                  consistent_foldl_noteChild)
          next
            case True
            obtain usedA usedB finalMatches
              where g: "greedy (sortSlice L cost (pairMatches L e x y)) = (usedA, usedB, finalMatches)"
              by (cases "greedy (sortSlice L cost (pairMatches L e x y))") auto
            have "\<forall>m \<in> set finalMatches. consistent (diff m)"
            proof
              fix m assume "m \<in> set finalMatches"
              with greedy_matches [OF g] sortOK [of cost "pairMatches L e x y"]
              have "m \<in> set (pairMatches L e x y)" by blast
              then obtain u w where uw: "u \<in> set (Elements x)" "w \<in> set (Elements y)"
                "diff m = compareWithPath L e (Some u) (Some w) []"
                by (blast dest: pairMatches_diff)
              from uw(1,2) have "mopt (Some u) + mopt (Some w) < msz x + msz y"
                using msz_Elements [of u x] msz_Elements [of w y] by simp
              then show "consistent (diff m)" unfolding uw(3) by (rule IH)
            qed
            then show ?thesis unfolding a b eq using True
              by (simp add: compareArrays.simps compareArraysByValue_unfold g consistent_value)
          qed
        next
          case TypeObject
          have eq: "compareWithPath L e (Some x) (Some y) path = compareObjects L e x y path"
            using TypeObject True by (simp add: compareWithPath_Object)
          show ?thesis
          proof (cases "IgnoreKeyCase (options e)")
            case False
            have "\<forall>c \<in> set (keyChildren L e x y path). consistent c"
              using mopt_map_of [of x] mopt_map_of [of y]
              by (auto simp: keyChildren_def intro!: IH add_less_mono)
            then show ?thesis unfolding a b eq using False
              by (simp add: compareObjects_unfold consistent_foldl_noteChild)
          next
            case True
            have "\<forall>c \<in> set (lowerChildren L e x y path). consistent c"
              using mopt_lookup [where d = x] mopt_lookup [where d = y]
              by (auto simp: lowerChildren_def lowerChild_def intro!: IH add_less_mono)
            then show ?thesis unfolding a b eq using True
              by (simp add: compareObjects_ignoreCase_unfold consistent_foldl_noteChild)
          qed
        qed
      qed
    qed
  qed
qed


lemma Compare_roots:
  assumes "Compare L docsA docsB opts = Some forest" and "r \<in> set forest"
  shows "\<exists>a b. r = compareWithPath L \<lparr>options = opts\<rparr> a b []"
proof -
  let ?R = "{r. \<exists>a b. r = compareWithPath L \<lparr>options = opts\<rparr> a b []}"
  have in_R: "compareWithPath L \<lparr>options = opts\<rparr> a b [] \<in> ?R" for a b by blast
  have "set forest \<subseteq> ?R"
  proof (cases "length docsA = 1 \<and> length docsB = 1")
    case True
    with assms(1) have "forest = [compareWithPath L \<lparr>options = opts\<rparr> (Some (docsA ! 0)) (Some (docsB ! 0)) []]"
      by (auto simp: Compare_def DiffEngine_Compare_def)
    then show ?thesis using in_R by simp
  next
    case False
    note single = this
    show ?thesis
    proof (cases "length docsA + length docsB = 0")
      case True
      with assms single show ?thesis by (simp add: Compare_def)
    next
      case False
      from single have s: "(length docsA = 1 \<and> length docsB = 1) = False" by simp
      from False have z: "(length docsA + length docsB = 0) = False" by simp
      from assms(1) obtain assignment where
        "forest =
           map (\<lambda>i. if assignment ! i < length docsB
                     then compareWithPath L \<lparr>options = opts\<rparr> (Some (docsA ! i)) (Some (docsB ! (assignment ! i))) []
                     else compareWithPath L \<lparr>options = opts\<rparr> (Some (docsA ! i)) None [])
             [0..<length docsA]
           @ map (\<lambda>j. compareWithPath L \<lparr>options = opts\<rparr> None (Some (docsB ! j)) [])
               (filter (\<lambda>j. j \<notin> set (filter (\<lambda>j. j < length docsB) (map (\<lambda>i. assignment ! i) [0..<length docsA])))
                  [0..<length docsB])"
        unfolding Compare_def Let_def s z if_False DiffEngine_Compare_def
        by (auto split: option.splits)
      then show ?thesis using in_R by (auto simp del: compareWithPath_nil)
    qed
  qed
  with assms(2) show ?thesis by blast
qed

text \<open>
  C9: for every forest that the multi-document comparison produces, \<^verbatim>\<open>HasDifferences\<close>,
  which looks at the statuses of the roots only, is true exactly when some node of the
  forest, a root or a descendant of one, has a status other than Same; and every node of
  the forest that has children is Modified exactly when one of its descendants is not
  Same. The sort of the value strategy is assumed to return elements of the list it is
  given (\<^verbatim>\<open>sort.Slice\<close> permutes its argument).
\<close>

theorem C9_has_differences:
  assumes "\<And>f ms. set (sortSlice L f ms) \<subseteq> set ms"
    and "Compare L docsA docsB opts = Some forest"
  shows "(HasDifferences forest \<longleftrightarrow>
            (\<exists>root \<in> set forest. \<exists>n \<in> set (nodes root). Status n \<noteq> StatusSame))
         \<and> (\<forall>root \<in> set forest. \<forall>n \<in> set (nodes root). ChildrenD n \<noteq> [] \<longrightarrow>
               (Status n = StatusModified \<longleftrightarrow>
                  (\<exists>d \<in> set (descendants n). Status d \<noteq> StatusSame)))"
proof -
  have roots: "consistent root" if "root \<in> set forest" for root
    using Compare_roots [OF assms(2) that] consistent_compareWithPath [of L, OF assms(1)]
    by auto
  have "HasDifferences forest \<longleftrightarrow>
          (\<exists>root \<in> set forest. \<exists>n \<in> set (nodes root). Status n \<noteq> StatusSame)"
    unfolding HasDifferences_def list_ex_iff
    using roots by (blast intro: nodes_self dest: changed_node_changes_root)
  moreover have "Status n = StatusModified \<longleftrightarrow> (\<exists>d \<in> set (descendants n). Status d \<noteq> StatusSame)"
    if "root \<in> set forest" "n \<in> set (nodes root)" "ChildrenD n \<noteq> []" for root n
    using consistent_nodes [OF roots [OF that(1)] that(2)] that(3)
    by (rule consistent_descendants)
  ultimately show ?thesis by blast
qed

theorem C9_has_differences_witness:
  "(\<forall>f ms. set (sortSlice asciiLib f ms) \<subseteq> set ms)
   \<and> Compare asciiLib [podA, serviceA] [serviceB, podB] defaultOptions =
       Some [DiffEngine_Compare asciiLib defaultEngine (Some podA) (Some podB),
             DiffEngine_Compare asciiLib defaultEngine (Some serviceA) (Some serviceB)]
   \<and> HasDifferences [DiffEngine_Compare asciiLib defaultEngine (Some podA) (Some podB),
                      DiffEngine_Compare asciiLib defaultEngine (Some serviceA) (Some serviceB)]
   \<and> (\<exists>root \<in> set [DiffEngine_Compare asciiLib defaultEngine (Some podA) (Some podB),
                      DiffEngine_Compare asciiLib defaultEngine (Some serviceA) (Some serviceB)].
        \<exists>n \<in> set (nodes root). Status n \<noteq> StatusSame)"
proof -
  have srt: "set (sortSlice asciiLib f ms) \<subseteq> set ms" for f ms
    by (simp add: asciiLib_def)
  have hd: "HasDifferences [DiffEngine_Compare asciiLib defaultEngine (Some podA) (Some podB),
                      DiffEngine_Compare asciiLib defaultEngine (Some serviceA) (Some serviceB)]"
    by code_simp
  from C9_has_differences [of asciiLib, OF srt pairing_example(1)] hd srt pairing_example(1)
  show ?thesis by blast
qed

section \<open>The greedy selection of the value strategy\<close>

lemma greedyStep_skip:
  "indexA m \<in> usedA \<or> indexB m \<in> usedB \<Longrightarrow>
   greedyStep (usedA, usedB, finalMatches) m = (usedA, usedB, finalMatches)"
  by (auto simp: greedyStep_def)

lemma greedyStep_take:
  "indexA m \<notin> usedA \<Longrightarrow> indexB m \<notin> usedB \<Longrightarrow>
   greedyStep (usedA, usedB, finalMatches) m =
     (insert (indexA m) usedA, insert (indexB m) usedB, finalMatches @ [m])"
  by (simp add: greedyStep_def)

lemma greedy_skip:
  "\<forall>m \<in> set ms. indexA m \<in> usedA \<or> indexB m \<in> usedB \<Longrightarrow>
   foldl greedyStep (usedA, usedB, finalMatches) ms = (usedA, usedB, finalMatches)"
  by (induction ms) (simp_all add: greedyStep_skip)

text \<open>Matches that share no index are all taken, in their order.\<close>

lemma greedy_matching:
  "distinct (map indexA ms) \<Longrightarrow> distinct (map indexB ms) \<Longrightarrow>
   indexA ` set ms \<inter> usedA = {} \<Longrightarrow> indexB ` set ms \<inter> usedB = {} \<Longrightarrow>
   foldl greedyStep (usedA, usedB, finalMatches) ms =
     (usedA \<union> indexA ` set ms, usedB \<union> indexB ` set ms, finalMatches @ ms)"
proof (induction ms arbitrary: usedA usedB finalMatches)
  case Nil
  show ?case by simp
next
  case (Cons m ms)
  from Cons.prems have take: "indexA m \<notin> usedA" "indexB m \<notin> usedB" by auto
  have "foldl greedyStep (insert (indexA m) usedA, insert (indexB m) usedB, finalMatches @ [m]) ms =
          (insert (indexA m) usedA \<union> indexA ` set ms, insert (indexB m) usedB \<union> indexB ` set ms,
           (finalMatches @ [m]) @ ms)"
    using Cons.prems by (intro Cons.IH) auto
  then show ?case by (simp add: greedyStep_take [OF take])
qed

text \<open>
  A list sorted by a key that is never negative: the elements of key 0, then the others.
\<close>

lemma sorted_zero_first:
  "sorted (map f ys) \<Longrightarrow> \<forall>y \<in> set ys. (0::int) \<le> f y \<Longrightarrow>
   ys = filter (\<lambda>y. f y = 0) ys @ filter (\<lambda>y. f y \<noteq> 0) ys"
proof (induction ys)
  case Nil
  show ?case by simp
next
  case (Cons y ys)
  show ?case
  proof (cases "f y = 0")
    case True
    with Cons show ?thesis by simp
  next
    case False
    with Cons.prems have "\<forall>z \<in> set ys. f z \<noteq> 0" by fastforce
    then have "filter (\<lambda>y. f y = 0) ys = []" "filter (\<lambda>y. f y \<noteq> 0) ys = ys"
      by (simp_all add: filter_empty_conv)
    with False show ?thesis by simp
  qed
qed

lemma calculateSize_nonneg: "0 \<le> calculateSize d"
proof (induction d rule: calculateSize.induct)
  case 1
  show ?case by (simp add: calculateSize.simps)
next
  case (2 d)
  show ?case
  proof (cases "Type d")
    case TypeArray
    with 2(1) have "\<forall>x \<in> set (Elements d). 0 \<le> calculateSize (Some x)" by blast
    then show ?thesis
      by (subst calculateSize.simps) (auto simp: TypeArray intro!: sum_list_nonneg)
  next
    case TypeObject
    with 2(2) have "\<forall>x \<in> set (Children d). 0 \<le> calculateSize (Some (snd x))" by blast
    then show ?thesis
      by (subst calculateSize.simps) (auto simp: TypeObject intro!: sum_list_nonneg)
  qed (simp_all add: calculateSize.simps)
qed


section \<open>Difference counts are never negative\<close>

lemma diffCount_Meta: "diffCount (DiffResult s p f t cs (MetaD r)) = diffCount r"
  by (simp add: diffCount_def)

lemma diffCount_foldl_nonneg:
  assumes "\<forall>c \<in> set cs. 0 \<le> diffCount c"
  shows "0 \<le> diffCount (foldl noteChild (emptyResult a b path) cs)"
  using assms by (auto simp: foldl_noteChild_diffCount intro!: sum_list_nonneg)

lemma diffCount_value:
  "diffCount
     (foldl noteChild
        (foldl noteUnmatched
           (foldl noteUnmatched (emptyResult a b path) ds) as) ms) =
   sum_list (map diffCount ds) + sum_list (map diffCount as)
     + sum_list (map diffCount (filter (\<lambda>c. Status c \<noteq> StatusSame) ms))"
  by (simp add: foldl_noteChild_diffCount foldl_noteUnmatched_diffCount foldl_noteUnmatched_MetaD)

lemma diffCount_value_nonneg:
  assumes "\<forall>m \<in> set finalMatches. 0 \<le> diffCount (diff m)"
  shows "0 \<le> diffCount
     (foldl noteChild
        (foldl noteUnmatched
           (foldl noteUnmatched (emptyResult a b path) (deletedChildren L e a path usedA))
           (addedChildren L e b path usedB))
        (matchedChildren path finalMatches))"
proof -
  have "0 \<le> sum_list (map diffCount (deletedChildren L e a path usedA))"
    by (auto simp: deletedChildren_def calculateSize_nonneg intro!: sum_list_nonneg)
  moreover have "0 \<le> sum_list (map diffCount (addedChildren L e b path usedB))"
    by (auto simp: addedChildren_def calculateSize_nonneg intro!: sum_list_nonneg)
  moreover have "0 \<le> sum_list (map diffCount
      (filter (\<lambda>c. Status c \<noteq> StatusSame) (matchedChildren path finalMatches)))"
    using assms by (auto simp: matchedChildren_def intro!: sum_list_nonneg)
  ultimately show ?thesis by (simp only: diffCount_value)
qed

lemma diffCount_nonneg:
  assumes sortOK: "\<And>f ms. set (sortSlice L f ms) \<subseteq> set ms"
  shows "0 \<le> diffCount (compareWithPath L e a b path)"
proof (induction "mopt a + mopt b" arbitrary: e a b path rule: less_induct)
  case less
  show ?case
  proof (cases a)
    case None
    then show ?thesis by (cases b) (simp_all add: calculateSize_nonneg)
  next
    case (Some x)
    note a = Some
    show ?thesis
    proof (cases b)
      case None
      with a show ?thesis by (simp add: calculateSize_nonneg)
    next
      case (Some y)
      note b = Some
      have IH: "0 \<le> diffCount (compareWithPath L e' a' b' path')"
        if "mopt a' + mopt b' < msz x + msz y" for e' a' b' path'
        using less [of a' b' e' path'] that a b by simp
      show ?thesis
      proof (cases "Type x = Type y")
        case False
        then show ?thesis using a b calculateSize_nonneg [of "Some x"] calculateSize_nonneg [of "Some y"]
          by (simp add: compareWithPath_mismatch)
      next
        case True
        show ?thesis
        proof (cases "Type x")
          case TypeNull
          with True show ?thesis using a b by (simp add: compareWithPath_Null)
        next
          case TypeBool
          with True show ?thesis using a b by (simp add: compareWithPath_Bool)
        next
          case TypeNumber
          with True show ?thesis using a b by (simp add: compareWithPath_Number)
        next
          case TypeString
          show ?thesis
          proof (cases "shouldDoLineDiff x y")
            case False
            with TypeString True show ?thesis using a b
              by (simp add: compareWithPath_String_plain)
          next
            case sd: True
            then obtain s t where v: "Value x = NString s" "Value y = NString t"
              and nl: "newline \<in> set s \<or> newline \<in> set t"
              by (auto simp: shouldDoLineDiff_iff)
            let ?lr = "lineResult L e x y s t path"
            have kids: "\<forall>c \<in> set (ChildrenD ?lr). 0 \<le> diffCount c"
              using IH [OF lineChild_consistent_step [OF sd v]]
              by (auto simp: lineResult_children lineChild_def)
            have "ChildrenD ?lr = indexChildren L (indexEngine e)
                (lineArray x (splitLines s)) (lineArray y (splitLines t)) path"
              by (simp add: lineResult_def compareArraysByIndex_unfold)
            with kids have "0 \<le> diffCount ?lr"
              unfolding lineResult_def compareArraysByIndex_unfold
              by (intro diffCount_foldl_nonneg) simp
            moreover have "compareWithPath L e (Some x) (Some y) path =
                DiffResult (Status ?lr) path (Some x) (Some y)
                  (if Status ?lr \<noteq> StatusSame \<and> length (ChildrenD ?lr) > 0
                   then map relabelLine (ChildrenD ?lr) else [])
                  (MetaD ?lr)"
              using TypeString True v nl by (intro compareWithPath_String_lines) simp_all
            ultimately show ?thesis unfolding a b by (simp only: diffCount_Meta)
          qed
        next
          case TypeArray
          have eq: "compareWithPath L e (Some x) (Some y) path = compareArrays L e x y path"
            using TypeArray True by (simp add: compareWithPath_Array)
          show ?thesis
          proof (cases "ArrayDiffStrategy (options e) = ArrayStrategyValue")
            case False
            have "\<forall>c \<in> set (indexChildren L e x y path). 0 \<le> diffCount c"
              using mopt_elemAt [of x] mopt_elemAt [of y]
              by (auto simp: indexChildren_def intro!: IH add_less_mono)
            then show ?thesis unfolding a b eq using False
              by (simp add: compareArrays.simps compareArraysByIndex_unfold
                  diffCount_foldl_nonneg)
          next
            case True
            obtain usedA usedB finalMatches
              where g: "greedy (sortSlice L cost (pairMatches L e x y)) = (usedA, usedB, finalMatches)"
              by (cases "greedy (sortSlice L cost (pairMatches L e x y))") auto
            have "\<forall>m \<in> set finalMatches. 0 \<le> diffCount (diff m)"
            proof
              fix m assume "m \<in> set finalMatches"
              with greedy_matches [OF g] sortOK [of cost "pairMatches L e x y"]
              have "m \<in> set (pairMatches L e x y)" by blast
              then obtain u w where uw: "u \<in> set (Elements x)" "w \<in> set (Elements y)"
                "diff m = compareWithPath L e (Some u) (Some w) []"
                by (blast dest: pairMatches_diff)
              from uw(1,2) have "mopt (Some u) + mopt (Some w) < msz x + msz y"
                using msz_Elements [of u x] msz_Elements [of w y] by simp
              then show "0 \<le> diffCount (diff m)" unfolding uw(3) by (rule IH)
            qed
            then show ?thesis unfolding a b eq using True
              by (simp add: compareArrays.simps compareArraysByValue_unfold g diffCount_value_nonneg)
          qed
        next
          case TypeObject
          have eq: "compareWithPath L e (Some x) (Some y) path = compareObjects L e x y path"
            using TypeObject True by (simp add: compareWithPath_Object)
          show ?thesis
          proof (cases "IgnoreKeyCase (options e)")
            case False
            have "\<forall>c \<in> set (keyChildren L e x y path). 0 \<le> diffCount c"
              using mopt_map_of [of x] mopt_map_of [of y]
              by (auto simp: keyChildren_def intro!: IH add_less_mono)
            then show ?thesis unfolding a b eq using False
              by (simp add: compareObjects_unfold diffCount_foldl_nonneg)
          next
            case True
            have "\<forall>c \<in> set (lowerChildren L e x y path). 0 \<le> diffCount c"
              using mopt_lookup [where d = x] mopt_lookup [where d = y]
              by (auto simp: lowerChildren_def lowerChild_def intro!: IH add_less_mono)
            then show ?thesis unfolding a b eq using True
              by (simp add: compareObjects_ignoreCase_unfold diffCount_foldl_nonneg)
          qed
        qed
      qed
    qed
  qed
qed


section \<open>The candidate pairs of the value strategy\<close>

lemma sel_pairMatch [simp]:
  "indexA (pairMatch L e a b i j) = i" "indexB (pairMatch L e a b i j) = j"
  "diff (pairMatch L e a b i j) = compareWithPath L e (Some (Elements a ! i)) (Some (Elements b ! j)) []"
  "cost (pairMatch L e a b i j) =
     diffCount (compareWithPath L e (Some (Elements a ! i)) (Some (Elements b ! j)) [])"
  by (simp_all add: pairMatch_def)

lemma pairMatches_index:
  "m \<in> set (pairMatches L e a b) \<Longrightarrow>
   indexA m < length (Elements a) \<and> indexB m < length (Elements b)"
  by (auto simp: pairMatches_def)



section \<open>Values without NaN, objects without colliding keys\<close>













section \<open>The value strategy on arrays of scalars\<close>

text \<open>A scalar: a value that is neither an array nor an object.\<close>

definition scalar :: "StructuredData \<Rightarrow> bool" where
  "scalar d = (Type d \<noteq> TypeArray \<and> Type d \<noteq> TypeObject)"

text \<open>Two values that the engine finds the same, compared as the value strategy does.\<close>

definition sameValue :: "stdlib \<Rightarrow> DiffEngine \<Rightarrow> StructuredData \<Rightarrow> StructuredData \<Rightarrow> bool" where
  "sameValue L e x y = (Status (compareWithPath L e (Some x) (Some y) []) = StatusSame)"

lemma calculateSize_scalar: "scalar d \<Longrightarrow> calculateSize (Some d) = 1"
  by (cases "Type d") (simp_all add: calculateSize.simps scalar_def)

lemma lineChild_cost:
  assumes "i < max (length ls) (length lt)"
    and "\<And>l. l \<in> set ls \<Longrightarrow> newline \<notin> set l"
    and "\<And>l. l \<in> set lt \<Longrightarrow> newline \<notin> set l"
    and "Status (lineChild L e x y ls lt path i) \<noteq> StatusSame"
  shows "diffCount (lineChild L e x y ls lt path i) = 1"
proof (cases "i < length ls \<and> i < length lt")
  case True
  then have "newline \<notin> set (ls ! i)" "newline \<notin> set (lt ! i)"
    using assms(2,3) by simp_all
  then have "\<not> shouldDoLineDiff (lineValue x (ls ! i)) (lineValue y (lt ! i))"
    by (simp add: shouldDoLineDiff_iff)
  with True assms(4) show ?thesis
    by (simp add: lineChild_def elemAt_def compareWithPath_String_plain split: if_splits)
next
  case False
  have "calculateSize (Some (lineValue z l)) = 1" for z l
    by (simp add: calculateSize.simps)
  with False assms(1) show ?thesis
    by (auto simp: lineChild_def elemAt_def)
qed

lemma sum_list_ones:
  "\<forall>c \<in> set cs. f c = (1::int) \<Longrightarrow> sum_list (map f cs) = int (length cs)"
  by (induction cs) simp_all

lemma lines_cost:
  assumes "Type x = TypeString" "Type y = TypeString"
    and "Value x = NString s" "Value y = NString t"
    and "newline \<in> set s \<or> newline \<in> set t"
  shows "(diffCount (compareWithPath L e (Some x) (Some y) path) = 0)
           = (Status (compareWithPath L e (Some x) (Some y) path) = StatusSame)"
proof -
  let ?lr = "lineResult L e x y s t path"
  let ?changed = "filter (\<lambda>c. Status c \<noteq> StatusSame) (ChildrenD ?lr)"
  have "\<forall>c \<in> set ?changed. diffCount c = 1"
    using splitLines_no_newline [of _ s] splitLines_no_newline [of _ t]
    by (auto simp: lineResult_children intro!: lineChild_cost)
  then have "sum_list (map diffCount ?changed) = int (length ?changed)"
    by (rule sum_list_ones)
  moreover have "diffCount ?lr = sum_list (map diffCount ?changed)"
    unfolding lineResult_def compareArraysByIndex_unfold
    by (simp add: foldl_noteChild_diffCount)
  ultimately have dc: "diffCount ?lr = int (length ?changed)" by simp
  have st: "Status ?lr = (if ?changed \<noteq> [] then StatusModified else StatusSame)"
    unfolding lineResult_def compareArraysByIndex_unfold
    by (simp add: foldl_noteChild_Status filter_empty_conv)
  have "compareWithPath L e (Some x) (Some y) path =
      DiffResult (Status ?lr) path (Some x) (Some y)
        (if Status ?lr \<noteq> StatusSame \<and> length (ChildrenD ?lr) > 0
         then map relabelLine (ChildrenD ?lr) else [])
        (MetaD ?lr)"
    using assms by (intro compareWithPath_String_lines) simp_all
  then have "diffCount (compareWithPath L e (Some x) (Some y) path) = diffCount ?lr"
    and "Status (compareWithPath L e (Some x) (Some y) path) = Status ?lr"
    by (simp_all only: diffCount_Meta DiffResult.sel)
  then show ?thesis by (simp add: dc st)
qed

text \<open>Between scalars the cost of a pair is 0 exactly when the pair is the same.\<close>

lemma scalar_cost:
  assumes "scalar x" and "scalar y"
  shows "(diffCount (compareWithPath L e (Some x) (Some y) path) = 0)
           = (Status (compareWithPath L e (Some x) (Some y) path) = StatusSame)"
proof (cases "Type x = Type y")
  case False
  then show ?thesis using assms
    by (simp add: compareWithPath_mismatch calculateSize_scalar)
next
  case True
  show ?thesis
  proof (cases "shouldDoLineDiff x y")
    case sd: True
    then obtain s t where "Type x = TypeString" "Type y = TypeString"
      "Value x = NString s" "Value y = NString t" "newline \<in> set s \<or> newline \<in> set t"
      by (auto simp: shouldDoLineDiff_iff)
    then show ?thesis by (rule lines_cost)
  next
    case False
    with True assms show ?thesis
      by (cases "Type x")
        (simp_all add: compareWithPath_Null compareWithPath_Bool compareWithPath_Number
          compareWithPath_String_plain scalar_def)
  qed
qed


text \<open>When every element of both arrays is matched and every matched pair is the same.\<close>

lemma value_matched_same:
  assumes g: "greedy (sortSlice L cost (pairMatches L e a b)) =
      ({0..<length (Elements a)}, {0..<length (Elements b)}, finalMatches)"
    and same: "\<forall>m \<in> set finalMatches. Status (diff m) = StatusSame"
  shows "Status (compareArraysByValue L e a b path) = StatusSame
         \<and> diffCount (compareArraysByValue L e a b path) = 0"
proof -
  have d: "deletedChildren L e a path {0..<length (Elements a)} = []"
    by (simp add: deletedChildren_def)
  have a: "addedChildren L e b path {0..<length (Elements b)} = []"
    by (simp add: addedChildren_def)
  have m: "\<forall>c \<in> set (matchedChildren path finalMatches). Status c = StatusSame"
    using same by (auto simp: matchedChildren_def)
  then have f: "filter (\<lambda>c. Status c \<noteq> StatusSame) (matchedChildren path finalMatches) = []"
    by (simp add: filter_empty_conv)
  have "Status (compareArraysByValue L e a b path) = StatusSame"
    using m by (simp add: compareArraysByValue_unfold g d a foldl_noteChild_Status)
  moreover have "diffCount (compareArraysByValue L e a b path) = 0"
    by (simp only: compareArraysByValue_unfold g prod.case diffCount_value d a f) simp
  ultimately show ?thesis by simp
qed

lemma filter_eq_upt: "k < n \<Longrightarrow> filter (\<lambda>j. j = k) [0..<n] = [k]"
  by (induction n) (auto simp: filter_empty_conv)

lemma concat_map_singleton: "concat (map (\<lambda>i. [f i]) xs) = map f xs"
  by (induction xs) simp_all

lemma value_permutation:
  assumes srt_mset: "\<And>f ms. mset (sortSlice L f ms) = mset ms"
    and srt_sorted: "\<And>f ms. sorted (map f (sortSlice L f ms))"
    and perm: "mset (Elements b) = mset (Elements a)"
    and sc: "\<forall>x \<in> set (Elements a). scalar x"
    and dist: "\<forall>i < length (Elements a). \<forall>j < length (Elements a).
        sameValue L e (Elements a ! i) (Elements a ! j) \<longleftrightarrow> i = j"
  shows "Status (compareArraysByValue L e a b path) = StatusSame
         \<and> diffCount (compareArraysByValue L e a b path) = 0"
proof -
  let ?xs = "Elements a" and ?ys = "Elements b"
  let ?n = "length (Elements a)"
  let ?pm = "pairMatch L e a b"
  let ?ms = "pairMatches L e a b"
  have len: "length ?ys = ?n" using perm by (rule mset_eq_length)
  have setys: "set ?ys = set ?xs" using perm by (rule mset_eq_setD)
  have dxs: "distinct ?xs"
    unfolding distinct_conv_nth
  proof (intro allI impI)
    fix i j assume ij: "i < ?n" "j < ?n" "i \<noteq> j"
    show "?xs ! i \<noteq> ?xs ! j"
    proof
      assume eq: "?xs ! i = ?xs ! j"
      from dist ij(1) have "sameValue L e (?xs ! i) (?xs ! i)" by simp
      with eq have "sameValue L e (?xs ! i) (?xs ! j)" by simp
      with dist ij show False by simp
    qed
  qed
  have dys: "distinct ?ys"
    using mset_eq_imp_distinct_iff [OF perm] dxs by simp
  have zero: "cost (?pm i j) = 0 \<longleftrightarrow> ?xs ! i = ?ys ! j" if "i < ?n" "j < ?n" for i j
  proof -
    from that(2) len have "?ys ! j \<in> set ?ys" by simp
    with setys have yj: "?ys ! j \<in> set ?xs" by simp
    then obtain k where k: "k < ?n" "?xs ! k = ?ys ! j" by (auto simp: in_set_conv_nth)
    from that(1) have "?xs ! i \<in> set ?xs" by simp
    with sc yj have "scalar (?xs ! i)" "scalar (?ys ! j)" by blast+
    then have "cost (?pm i j) = 0 \<longleftrightarrow> sameValue L e (?xs ! i) (?ys ! j)"
      by (simp add: sameValue_def scalar_cost)
    also have "\<dots> \<longleftrightarrow> i = k" using dist that(1) k(1) by (simp add: k(2) [symmetric])
    also have "\<dots> \<longleftrightarrow> ?xs ! i = ?xs ! k"
      using dxs that(1) k(1) by (simp add: nth_eq_iff_index_eq)
    finally show ?thesis by (simp add: k(2))
  qed
  have "\<forall>i \<in> {0..<?n}. \<exists>j. j < ?n \<and> ?ys ! j = ?xs ! i"
  proof
    fix i assume "i \<in> {0..<?n}"
    then have "?xs ! i \<in> set ?ys" using setys by simp
    then show "\<exists>j. j < ?n \<and> ?ys ! j = ?xs ! i" using len by (auto simp: in_set_conv_nth)
  qed
  then obtain \<sigma> where \<sigma>: "\<forall>i \<in> {0..<?n}. \<sigma> i < ?n \<and> ?ys ! \<sigma> i = ?xs ! i"
    by (auto dest: bchoice)
  have inj: "inj_on \<sigma> {0..<?n}"
  proof (rule inj_onI)
    fix i j assume ij: "i \<in> {0..<?n}" "j \<in> {0..<?n}" "\<sigma> i = \<sigma> j"
    from \<sigma> ij(1,2) have "?ys ! \<sigma> i = ?xs ! i" "?ys ! \<sigma> j = ?xs ! j" by blast+
    with ij(3) have "?xs ! i = ?xs ! j" by simp
    with dxs ij(1,2) show "i = j" by (simp add: nth_eq_iff_index_eq)
  qed
  have img: "\<sigma> ` {0..<?n} = {0..<?n}"
    using \<sigma> inj by (intro endo_inj_surj) auto
  have row: "filter (\<lambda>m. cost m = 0) (map (?pm i) [0..<?n]) = [?pm i (\<sigma> i)]" if "i < ?n" for i
  proof -
    have "filter (\<lambda>j. cost (?pm i j) = 0) [0..<?n] = filter (\<lambda>j. j = \<sigma> i) [0..<?n]"
    proof (rule filter_cong [OF refl])
      fix j assume "j \<in> set [0..<?n]"
      then have j: "j < ?n" by simp
      from \<sigma> that have s: "\<sigma> i < ?n" "?ys ! \<sigma> i = ?xs ! i" by simp_all
      have "cost (?pm i j) = 0 \<longleftrightarrow> ?ys ! \<sigma> i = ?ys ! j"
        using zero [OF that j] s(2) by simp
      also have "\<dots> \<longleftrightarrow> \<sigma> i = j"
        using dys s(1) j len by (simp add: nth_eq_iff_index_eq)
      finally show "(cost (?pm i j) = 0) = (j = \<sigma> i)" by auto
    qed
    also have "\<dots> = [\<sigma> i]" using \<sigma> that by (intro filter_eq_upt) simp
    finally show ?thesis by (simp add: filter_map comp_def)
  qed
  have "concat (map (\<lambda>i. filter (\<lambda>m. cost m = 0) (map (?pm i) [0..<?n])) [0..<?n])
          = concat (map (\<lambda>i. [?pm i (\<sigma> i)]) [0..<?n])"
    by (rule arg_cong [where f = concat], rule map_cong [OF refl]) (simp add: row)
  then have Z0: "filter (\<lambda>m. cost m = 0) ?ms = map (\<lambda>i. ?pm i (\<sigma> i)) [0..<?n]"
    by (simp add: pairMatches_def len filter_concat comp_def concat_map_singleton)
  let ?S = "sortSlice L cost ?ms"
  let ?Z = "filter (\<lambda>m. cost m = 0) ?S"
  let ?R = "filter (\<lambda>m. cost m \<noteq> 0) ?S"
  have setS: "set ?S = set ?ms" using srt_mset [of cost ?ms] by (rule mset_eq_setD)
  have sortOK: "set (sortSlice L f ms) \<subseteq> set ms" for f ms
    using mset_eq_setD [OF srt_mset [of f ms]] by simp
  have nonneg: "\<forall>m \<in> set ?S. 0 \<le> cost m"
    unfolding setS using diffCount_nonneg [of L, OF sortOK] by (auto simp: pairMatches_def)
  have S: "?S = ?Z @ ?R"
    using srt_sorted [of cost ?ms] nonneg by (rule sorted_zero_first)
  have msetZ: "mset ?Z = mset (map (\<lambda>i. ?pm i (\<sigma> i)) [0..<?n])"
    by (simp only: mset_filter srt_mset flip: Z0)
  have "set ?Z = set (map (\<lambda>i. ?pm i (\<sigma> i)) [0..<?n])"
    using msetZ by (rule mset_eq_setD)
  then have setZ: "set ?Z = (\<lambda>i. ?pm i (\<sigma> i)) ` {0..<?n}"
    by simp
  have mapA: "map indexA (map (\<lambda>i. ?pm i (\<sigma> i)) [0..<?n]) = [0..<?n]"
    by (simp add: comp_def)
  have mapB: "map indexB (map (\<lambda>i. ?pm i (\<sigma> i)) [0..<?n]) = map \<sigma> [0..<?n]"
    by (simp add: comp_def)
  have "mset (map indexA ?Z) = mset (map indexA (map (\<lambda>i. ?pm i (\<sigma> i)) [0..<?n]))"
    by (simp only: mset_map msetZ)
  then have "mset (map indexA ?Z) = mset [0..<?n]" by (simp only: mapA)
  from mset_eq_imp_distinct_iff [OF this] have dA: "distinct (map indexA ?Z)"
    by simp
  have "mset (map indexB ?Z) = mset (map indexB (map (\<lambda>i. ?pm i (\<sigma> i)) [0..<?n]))"
    by (simp only: mset_map msetZ)
  then have "mset (map indexB ?Z) = mset (map \<sigma> [0..<?n])" by (simp only: mapB)
  moreover have "distinct (map \<sigma> [0..<?n])" using inj by (simp add: distinct_map)
  ultimately have dB: "distinct (map indexB ?Z)"
    using mset_eq_imp_distinct_iff [of "map indexB ?Z" "map \<sigma> [0..<?n]"] by simp
  have setA: "indexA ` set ?Z = {0..<?n}"
    unfolding setZ by (simp add: image_image)
  have setB: "indexB ` set ?Z = {0..<?n}"
    unfolding setZ using img by (simp add: image_image)
  have "foldl greedyStep ({}, {}, []) ?Z = ({} \<union> indexA ` set ?Z, {} \<union> indexB ` set ?Z, [] @ ?Z)"
    by (rule greedy_matching [OF dA dB]) simp_all
  then have g1: "foldl greedyStep ({}, {}, []) ?Z = ({0..<?n}, {0..<?n}, ?Z)"
    by (simp only: setA setB Un_empty_left append_Nil)
  have g2: "foldl greedyStep ({0..<?n}, {0..<?n}, ?Z) ?R = ({0..<?n}, {0..<?n}, ?Z)"
    by (rule greedy_skip) (use setS in \<open>auto dest: pairMatches_index\<close>)
  have "greedy ?S = foldl greedyStep (foldl greedyStep ({}, {}, []) ?Z) ?R"
    unfolding greedy_def by (subst S) (simp only: foldl_append)
  then have g: "greedy ?S = ({0..<?n}, {0..<length ?ys}, ?Z)"
    by (simp only: g1 g2 len)
  have same: "\<forall>m \<in> set ?Z. Status (diff m) = StatusSame"
  proof
    fix m assume m: "m \<in> set ?Z"
    then have c: "cost m = 0" and "m \<in> set ?ms" using setS by auto
    then obtain i j where ij: "i < ?n" "j < ?n" "m = ?pm i j"
      by (auto simp: pairMatches_def len)
    from ij(2) len have "?ys ! j \<in> set ?ys" by simp
    with setys have "?ys ! j \<in> set ?xs" by simp
    moreover from ij(1) have "?xs ! i \<in> set ?xs" by simp
    ultimately have "scalar (?xs ! i)" "scalar (?ys ! j)" using sc by blast+
    with c ij(3) show "Status (diff m) = StatusSame"
      by (simp add: scalar_cost)
  qed
  from g same show ?thesis by (rule value_matched_same)
qed


text \<open>The arrays \<^verbatim>\<open>["a","b","c"]\<close> and \<^verbatim>\<open>["c","a","b"]\<close>.\<close>

definition abc :: StructuredData where
  "abc = array [str ''a'', str ''b'', str ''c'']"

definition cab :: StructuredData where
  "cab = array [str ''c'', str ''a'', str ''b'']"

text \<open>
  C7, as stated, fails in its general part. The three Number values with the payloads
  \<open>2 ^ 63 - 1\<close> (an \<^verbatim>\<open>int64\<close>), \<open>2 ^ 63 + 1\<close> (a \<^verbatim>\<open>uint64\<close>) and \<open>2 ^ 63 - 2\<close> (an \<^verbatim>\<open>int64\<close>) are
  pairwise distinct scalars, each the same as itself; the second compares Same with the
  first and with the third (as floating-point numbers) while the first and the third
  differ (as integers). The array of the three against its rotation is Modified with a
  difference count of 1: the greedy selection pairs the first with the second and the
  second with the third, and the third is left with the first. An array holding a NaN,
  against itself, is Modified as well.
\<close>

theorem C7_counterexample:
  "distinct [number (NInt64 9223372036854775807), number (NUint64 9223372036854775809),
             number (NInt64 9223372036854775806)]
   \<and> list_all scalar [number (NInt64 9223372036854775807), number (NUint64 9223372036854775809),
             number (NInt64 9223372036854775806)]
   \<and> list_all (\<lambda>x. sameValue asciiLib valueEngine x x)
         [number (NInt64 9223372036854775807), number (NUint64 9223372036854775809),
          number (NInt64 9223372036854775806)]
   \<and> Status (DiffEngine_Compare asciiLib valueEngine
        (Some (array [number (NInt64 9223372036854775807), number (NUint64 9223372036854775809),
                      number (NInt64 9223372036854775806)]))
        (Some (array [number (NUint64 9223372036854775809), number (NInt64 9223372036854775806),
                      number (NInt64 9223372036854775807)]))) = StatusModified
   \<and> diffCount (DiffEngine_Compare asciiLib valueEngine
        (Some (array [number (NInt64 9223372036854775807), number (NUint64 9223372036854775809),
                      number (NInt64 9223372036854775806)]))
        (Some (array [number (NUint64 9223372036854775809), number (NInt64 9223372036854775806),
                      number (NInt64 9223372036854775807)]))) = 1
   \<and> Status (DiffEngine_Compare asciiLib valueEngine
        (Some (array [number (NFloat64 NaN)])) (Some (array [number (NFloat64 NaN)])))
       = StatusModified"
  by code_simp

text \<open>
  C7, amended: under the value strategy, an array of scalars in which every element
  compares Same with itself and no two elements at different positions compare Same,
  against any permutation of itself, gives the status Same and the difference count 0,
  whatever order the sort gives to pairs of equal cost (\<^verbatim>\<open>sortSlice\<close> returns a permutation
  of its argument, sorted by the key). In particular \<^verbatim>\<open>["a","b","c"]\<close> against
  \<^verbatim>\<open>["c","a","b"]\<close> is Same.
\<close>

theorem C7_value_permutation:
  assumes "ArrayDiffStrategy (options e) = ArrayStrategyValue"
    and "\<And>f ms. mset (sortSlice L f ms) = mset ms"
    and "\<And>f ms. sorted (map f (sortSlice L f ms))"
    and "Type a = TypeArray" and "Type b = TypeArray"
    and "mset (Elements b) = mset (Elements a)"
    and "\<forall>x \<in> set (Elements a). scalar x"
    and "\<forall>i < length (Elements a). \<forall>j < length (Elements a).
           sameValue L e (Elements a ! i) (Elements a ! j) \<longleftrightarrow> i = j"
  shows "Status (DiffEngine_Compare L e (Some a) (Some b)) = StatusSame
         \<and> diffCount (DiffEngine_Compare L e (Some a) (Some b)) = 0"
proof -
  have "DiffEngine_Compare L e (Some a) (Some b) = compareArraysByValue L e a b []"
    using assms(1,4,5) by (simp add: DiffEngine_Compare_def compareWithPath_Array compareArrays.simps)
  moreover have "Status (compareArraysByValue L e a b []) = StatusSame
      \<and> diffCount (compareArraysByValue L e a b []) = 0"
    using assms(2,3,6,7,8) by (rule value_permutation)
  ultimately show ?thesis by simp
qed

theorem C7_value_permutation_witness:
  "ArrayDiffStrategy (options valueEngine) = ArrayStrategyValue
   \<and> (\<forall>f ms. mset (sortSlice asciiLib f ms) = mset ms)
   \<and> (\<forall>f ms. sorted (map f (sortSlice asciiLib f ms)))
   \<and> Type abc = TypeArray \<and> Type cab = TypeArray
   \<and> mset (Elements cab) = mset (Elements abc)
   \<and> list_all scalar (Elements abc)
   \<and> map (\<lambda>x. map (sameValue asciiLib valueEngine x) (Elements abc)) (Elements abc)
       = [[True, False, False], [False, True, False], [False, False, True]]
   \<and> Status (DiffEngine_Compare asciiLib valueEngine (Some abc) (Some cab)) = StatusSame
   \<and> diffCount (DiffEngine_Compare asciiLib valueEngine (Some abc) (Some cab)) = 0"
proof -
  have h1: "ArrayDiffStrategy (options valueEngine) = ArrayStrategyValue"
    by (simp add: valueEngine_def)
  have h2: "mset (sortSlice asciiLib f ms) = mset ms" for f ms
    by (simp add: asciiLib_def)
  have h3: "sorted (map f (sortSlice asciiLib f ms))" for f ms
    by (simp add: asciiLib_def)
  have h4: "Type abc = TypeArray" "Type cab = TypeArray"
    by (simp_all add: abc_def cab_def array_def)
  have el: "Elements abc = [str ''a'', str ''b'', str ''c'']"
    "Elements cab = [str ''c'', str ''a'', str ''b'']"
    by (simp_all add: abc_def cab_def array_def)
  have h5: "mset (Elements cab) = mset (Elements abc)"
    by (simp add: el add_mset_commute)
  have h6: "\<forall>x \<in> set (Elements abc). scalar x"
    by (simp add: el scalar_def str_def)
  have m: "map (\<lambda>x. map (sameValue asciiLib valueEngine x) (Elements abc)) (Elements abc)
       = [[True, False, False], [False, True, False], [False, False, True]]"
    by code_simp
  have h7: "\<forall>i < length (Elements abc). \<forall>j < length (Elements abc).
           sameValue asciiLib valueEngine (Elements abc ! i) (Elements abc ! j) \<longleftrightarrow> i = j"
    using m unfolding el by (auto simp: less_Suc_eq numeral_3_eq_3)
  have l: "list_all scalar (Elements abc)"
    using h6 by (simp add: list_all_iff)
  from C7_value_permutation [of valueEngine asciiLib abc cab, OF h1 h2 h3 h4 h5 h6 h7]
    h1 h2 h3 h4 h5 l m
  show ?thesis by blast
qed

section \<open>The greedy selection among pairs of cost 0\<close>




section \<open>Comparing a value with itself\<close>



























end
